theory Spec2Isabelle
  imports Complex_Main
begin

section \<open>The record matcher of \<open>vs_library/tools/pandas_extension.py\<close>\<close>

text \<open>
  The module links rows of a target table to rows of a reference table by weighted fuzzy
  string similarity. This theory embeds the functions \<open>adjusted_uniqueness\<close>,
  \<open>get_column_dupes\<close> and the class \<open>PandasMatcher\<close> (the \<open>df_from\<close> setter,
  \<open>_choices\<close>, \<open>__subset\<close>, \<open>_compute_score\<close>, \<open>_top_matches\<close>, \<open>match\<close>).

  Conventions of the embedding:
  \<^item> a \<open>pandas.DataFrame\<close> is its list of column labels and its list of rows; both setters
    store \<open>df.astype(str).replace('nan', '')\<close>, so every cell is a string; the index is the
    default one, so a row's label is its zero-based position;
  \<^item> Python floats are exact rationals: \<open>+\<close>, \<open>*\<close>, \<open>/\<close>, \<open><\<close> and \<open>==\<close> are the exact
    operations, \<open>round(x, 2)\<close> is rounding half to even at two decimals; binary
    representation error is outside the model;
  \<^item> a \<open>dict\<close> whose iteration order is observable is an association list in insertion
    order, \<open>defaultdict(float)\<close> reads \<open>0\<close> at a missing key;
  \<^item> every exception the code can raise is a value of \<open>error\<close>, a function that can raise
    returns \<open>error + 'a\<close> with \<open>Inl\<close> the exception;
  \<^item> the module calls \<open>process.extract\<close> with \<open>scorer=fuzz.WRatio\<close> and wraps the row loop
    in \<open>tqdm\<close>; neither is defined in the repository. The scorer is a parameter
    \<open>scorer\<close> of the model, \<open>process_extract\<close> is written out from the library's contract, and
    \<open>tqdm\<close> (a progress bar around an iterable) is the identity.
\<close>

subsection \<open>Data model\<close>

datatype error = KeyError | ZeroDivisionError

text \<open>A row maps a column label to its cell; a cell is read only under a label that the
  code has found among \<open>df_columns\<close> (any other read is a \<open>KeyError\<close>).\<close>

type_synonym row = "string \<Rightarrow> string"

record dataframe =
  df_columns :: "string list"
  df_rows :: "row list"

text \<open>\<open>len(df)\<close>\<close>

definition len_df :: "dataframe \<Rightarrow> nat" where
  "len_df df = length (df_rows df)"

text \<open>\<open>df[column]\<close>: the cells of one column, top to bottom.\<close>

definition get_column :: "dataframe \<Rightarrow> string \<Rightarrow> error + string list" where
  "get_column df column =
     (if column \<in> set (df_columns df) then Inr (map (\<lambda>r. r column) (df_rows df))
      else Inl KeyError)"

text \<open>\<open>df.astype(str).replace('nan', '')\<close>: cells are strings already; a cell that is
  exactly \<open>nan\<close> becomes the empty string.\<close>

definition as_str_blank_nan :: "dataframe \<Rightarrow> dataframe" where
  "as_str_blank_nan df =
     df\<lparr>df_rows := map (\<lambda>r c. if r c = ''nan'' then '''' else r c) (df_rows df)\<rparr>"

text \<open>The attributes of \<open>PandasMatcher\<close> as \<open>__init__\<close> declares them.\<close>

record matcher =
  df_to :: dataframe
  df_from :: dataframe
  column_threshold :: "string \<rightharpoonup> rat"
  columns_to_match :: "(string \<times> string list) list"
  columns_to_get :: "string list"
  column_groups :: "string list"
  required_threshold :: rat
  cutoff :: bool

subsection \<open>The \<open>df_from\<close> setter\<close>

text \<open>\<open>for _, columns_from in self.columns_to_match.items(): columns_from.clear()\<close>\<close>

definition clear_all :: "(string \<times> string list) list \<Rightarrow> (string \<times> string list) list" where
  "clear_all ctm = map (\<lambda>(column_to, columns_from). (column_to, [])) ctm"

text \<open>\<open>self.columns_to_match[key].append(v)\<close> for a key that is present.\<close>

fun append_at :: "(string \<times> string list) list \<Rightarrow> string \<Rightarrow> string \<Rightarrow> (string \<times> string list) list" where
  "append_at [] key v = []"
| "append_at ((k, vs) # ctm) key v =
     (if k = key then (k, vs @ [v]) # ctm else (k, vs) # append_at ctm key v)"

text \<open>The second loop of the setter: every column of the new reference table that is a
  key of the mapping is appended to its own entry.\<close>

fun relink :: "(string \<times> string list) list \<Rightarrow> string list \<Rightarrow> (string \<times> string list) list" where
  "relink ctm [] = ctm"
| "relink ctm (column_from # rest) =
     relink (if column_from \<in> set (map fst ctm) then append_at ctm column_from column_from
             else ctm) rest"

definition set_df_from :: "matcher \<Rightarrow> dataframe \<Rightarrow> matcher" where
  "set_df_from self df =
     (let new_from = as_str_blank_nan df in
      self\<lparr>df_from := new_from,
           columns_to_get := [],
           columns_to_match := relink (clear_all (columns_to_match self)) (df_columns new_from)\<rparr>)"

subsection \<open>Exceptions through loops\<close>

text \<open>A list comprehension or a loop whose body may raise stops at the first exception.\<close>

fun map_err :: "('a \<Rightarrow> error + 'b) \<Rightarrow> 'a list \<Rightarrow> error + 'b list" where
  "map_err f [] = Inr []"
| "map_err f (x # xs) =
     (case f x of Inl e \<Rightarrow> Inl e
      | Inr y \<Rightarrow> (case map_err f xs of Inl e \<Rightarrow> Inl e | Inr ys \<Rightarrow> Inr (y # ys)))"

fun fold_err :: "('s \<Rightarrow> 'a \<Rightarrow> error + 's) \<Rightarrow> 's \<Rightarrow> 'a list \<Rightarrow> error + 's" where
  "fold_err f s [] = Inr s"
| "fold_err f s (x # xs) =
     (case f s x of Inl e \<Rightarrow> Inl e | Inr s' \<Rightarrow> fold_err f s' xs)"

subsection \<open>\<open>adjusted_uniqueness\<close>\<close>

text \<open>\<open>Series.nunique()\<close> of a column of strings: the number of distinct cells.\<close>

definition nunique :: "string list \<Rightarrow> nat" where
  "nunique xs = length (remdups xs)"

text \<open>
  \<open>u = df[selected_cols].nunique().apply(lambda x: x/len(df))\<close> and
  \<open>u.apply(lambda x: x / u.sum())\<close>. Selecting a label that is not a column raises
  \<open>KeyError\<close>. \<open>apply\<close> calls the lambda once per selected column on a Python integer, so
  with at least one selected column and \<open>len(df) = 0\<close> the first division raises
  \<open>ZeroDivisionError\<close>; with no selected column no division is made. The second division
  is reached only with a positive sum (lemma \<open>uniqueness_total_pos\<close>).
\<close>

definition adjusted_uniqueness :: "dataframe \<Rightarrow> string list \<Rightarrow> error + (string \<times> rat) list" where
  "adjusted_uniqueness df selected_cols =
     (if \<not> set selected_cols \<subseteq> set (df_columns df) then Inl KeyError
      else
        let counts = map (\<lambda>c. (c, nunique (map (\<lambda>r. r c) (df_rows df)))) selected_cols in
        if counts \<noteq> [] \<and> len_df df = 0 then Inl ZeroDivisionError
        else
          let u = map (\<lambda>(c, x). (c, of_nat x / of_nat (len_df df))) counts;
              total = sum_list (map snd u)
          in Inr (map (\<lambda>(c, x). (c, x / total)) u))"

text \<open>\<open>series[label]\<close> on a series indexed by labels.\<close>

definition series_at :: "(string \<times> 'a) list \<Rightarrow> string \<Rightarrow> error + 'a" where
  "series_at s label = (case map_of s label of None \<Rightarrow> Inl KeyError | Some v \<Rightarrow> Inr v)"

text \<open>\<open>self.column_threshold[column]\<close> on a \<open>defaultdict(float)\<close>.\<close>

definition threshold_of :: "matcher \<Rightarrow> string \<Rightarrow> rat" where
  "threshold_of self column = (case column_threshold self column of None \<Rightarrow> 0 | Some t \<Rightarrow> t)"

subsection \<open>\<open>_choices\<close> and \<open>__subset\<close>\<close>

text \<open>One step of the inner loop of \<open>_choices\<close>: the first linked reference column is
  copied, each further one is appended cell by cell after a space.\<close>

definition add_choice ::
  "dataframe \<Rightarrow> string \<Rightarrow> (string \<rightharpoonup> string list) \<Rightarrow> string \<Rightarrow> error + (string \<rightharpoonup> string list)" where
  "add_choice ref column_to choices column_from =
     (case get_column ref column_from of
        Inl e \<Rightarrow> Inl e
      | Inr s \<Rightarrow>
          (case choices column_to of
             None \<Rightarrow> Inr (choices(column_to \<mapsto> s))
           | Some acc \<Rightarrow> Inr (choices(column_to \<mapsto> map2 (\<lambda>a b. a @ '' '' @ b) acc s))))"

definition choices :: "matcher \<Rightarrow> error + (string \<rightharpoonup> string list)" where
  "choices self =
     fold_err (\<lambda>ch (column_to, columns_from).
                 fold_err (add_choice (df_from self) column_to) ch columns_from)
       Map.empty (columns_to_match self)"

text \<open>\<open>__subset\<close>: the reference rows that agree with the target row on every group column,
  as their positions. \<open>df[group]\<close> needs the label among the reference columns and
  \<open>row[group]\<close> among the target columns.\<close>

definition subset_index :: "matcher \<Rightarrow> row \<Rightarrow> error + nat list" where
  "subset_index self row_to =
     (case fold_err (\<lambda>df group.
                 if group \<in> set (df_columns (df_from self)) \<and> group \<in> set (df_columns (df_to self))
                 then Inr (filter (\<lambda>(i, r). r group = row_to group) df)
                 else Inl KeyError)
             (enumerate 0 (df_rows (df_from self))) (column_groups self) of
        Inl e \<Rightarrow> Inl e
      | Inr df \<Rightarrow> Inr (map fst df))"

subsection \<open>\<open>_compute_score\<close>\<close>

text \<open>
  \<open>process.extract(query, choices, scorer, limit, score_cutoff)\<close> of the fuzzy matching
  library: every choice is scored against the query string, choices that score below
  \<open>score_cutoff\<close> are left out, the rest is returned best first as triples
  (choice, score, key), at most \<open>limit\<close> of them.
\<close>

definition process_extract ::
  "(string \<Rightarrow> string \<Rightarrow> rat) \<Rightarrow> string \<Rightarrow> (nat \<times> string) list \<Rightarrow> nat \<Rightarrow> rat \<Rightarrow> (string \<times> rat \<times> nat) list" where
  "process_extract scorer q query limit score_cutoff =
     take limit (sort_key (\<lambda>(c, score, key). - score)
       (filter (\<lambda>(c, score, key). score_cutoff \<le> score)
          (map (\<lambda>(key, c). (c, scorer q c, key)) query)))"

text \<open>\<open>match_scores[index_from] += x\<close> on a \<open>defaultdict(float)\<close>.\<close>

fun add_score :: "(nat \<times> rat) list \<Rightarrow> nat \<Rightarrow> rat \<Rightarrow> (nat \<times> rat) list" where
  "add_score [] index_from x = [(index_from, 0 + x)]"
| "add_score ((k, v) # ms) index_from x =
     (if k = index_from then (k, v + x) # ms else (k, v) # add_score ms index_from x)"

text \<open>The body of the loop over \<open>self.columns_to_match.items()\<close>. The positions in
  \<open>indices_to_compare\<close> come from the reference table, whose columns the choices are, so
  \<open>iloc\<close> stays in range.\<close>

definition score_column ::
  "(string \<Rightarrow> string \<Rightarrow> rat) \<Rightarrow> matcher \<Rightarrow> (string \<rightharpoonup> string list) \<Rightarrow> row \<Rightarrow> nat list \<Rightarrow>
   (string \<times> rat) list \<Rightarrow> (nat \<times> rat) list \<Rightarrow> string \<times> string list \<Rightarrow> error + (nat \<times> rat) list" where
  "score_column scorer self ch row_to indices_to_compare uniqueness match_scores item =
     (case item of (column_to, columns_from) \<Rightarrow>
        if columns_from = [] then Inr match_scores
        else if column_to \<notin> set (df_columns (df_to self)) then Inl KeyError
        else
          (case ch column_to of
             None \<Rightarrow> Inl KeyError
           | Some col \<Rightarrow>
               let value_to_compare = row_to column_to;
                   restricted = map (\<lambda>i. (i, col ! i)) indices_to_compare;
                   query = (if restricted = [] then enumerate 0 col else restricted);
                   matches = process_extract scorer value_to_compare query (len_df (df_from self))
                               (if \<not> cutoff self then 0 else threshold_of self column_to)
               in fold_err (\<lambda>ms (c, score, index_from).
                     case series_at uniqueness column_to of
                       Inl e \<Rightarrow> Inl e
                     | Inr w \<Rightarrow> Inr (add_score ms index_from (score * w)))
                   match_scores matches))"

definition compute_score ::
  "(string \<Rightarrow> string \<Rightarrow> rat) \<Rightarrow> matcher \<Rightarrow> (string \<rightharpoonup> string list) \<Rightarrow> nat \<Rightarrow>
   (string \<times> rat) list \<Rightarrow> error + (nat \<times> rat) list" where
  "compute_score scorer self ch index_to uniqueness =
     (let row_to = df_rows (df_to self) ! index_to in
      case subset_index self row_to of
        Inl e \<Rightarrow> Inl e
      | Inr indices_to_compare \<Rightarrow>
          fold_err (score_column scorer self ch row_to indices_to_compare uniqueness)
            [] (columns_to_match self))"

subsection \<open>\<open>_top_matches\<close>\<close>

text \<open>\<open>round(x, 2)\<close>: to the nearest multiple of \<open>1/100\<close>, a tie to the even one.\<close>

definition round_half_even :: "rat \<Rightarrow> int" where
  "round_half_even x =
     (let f = \<lfloor>x\<rfloor>; r = x - of_int f in
      if r < 1 / 2 then f else if 1 / 2 < r then f + 1 else if even f then f else f + 1)"

definition round2 :: "rat \<Rightarrow> rat" where
  "round2 x = of_int (round_half_even (x * 100)) / 100"

text \<open>The values written to the \<open>match_status\<close> column.\<close>

datatype status = MATCHED | REVIEW | AMBIGUOUS | UNMATCHED | DUPLICATES

text \<open>\<open>{k: v for k, v in y.items() if v == max(y.values())}\<close>; on an empty dictionary the
  condition is never evaluated, so \<open>max\<close> of nothing is never taken.\<close>

definition filter_highest :: "(nat \<times> rat) list \<Rightarrow> (nat \<times> rat) list" where
  "filter_highest y = filter (\<lambda>(k, v). v = Max (set (map snd y))) y"

text \<open>An entry of the result is (reference position, \<open>match_status\<close>, \<open>match_score\<close>).\<close>

definition top_matches :: "matcher \<Rightarrow> (nat \<times> rat) list \<Rightarrow> rat \<Rightarrow> (nat \<times> status \<times> rat) list" where
  "top_matches self match_scores optimal_threshold =
     map (\<lambda>(index_from, match_score).
            (index_from, if match_score < optimal_threshold then REVIEW else MATCHED, match_score))
       (filter (\<lambda>(index_from, match_score).
                  round2 (required_threshold self) \<le> round2 match_score)
          (filter_highest match_scores))"

subsection \<open>The result table\<close>

text \<open>A cell of the \<open>row_index\<close> column holds a string (empty until a candidate is
  recorded, the joined positions of an ambiguous row) or an integer.\<close>

datatype pycell = PyStr string | PyInt nat

text \<open>
  One row of \<open>df_matched\<close>: the values copied from the reference row for
  \<open>columns_to_get\<close> and the three columns \<open>match\<close> adds. \<open>match_score\<close> is \<open>None\<close> while
  the cell still holds the empty string it is initialised with. The copy of the target
  row that \<open>df_matched\<close> starts from is not repeated here.
\<close>

record result_row =
  copied :: "(string \<times> string) list"
  match_status :: status
  row_index :: pycell
  match_score :: "rat option"

text \<open>\<open>str(n)\<close> for a natural number and \<open>sep.join(xs)\<close>.\<close>

fun str_nat :: "nat \<Rightarrow> string" where
  "str_nat n =
     (if n < 10 then [''0123456789'' ! n]
      else str_nat (n div 10) @ [''0123456789'' ! (n mod 10)])"

declare str_nat.simps [simp del]

fun join :: "string \<Rightarrow> string list \<Rightarrow> string" where
  "join sep [] = []"
| "join sep [x] = x"
| "join sep (x # y # ys) = x @ sep @ join sep (y # ys)"

text \<open>\<open>df.at[i, column]\<close>\<close>

definition frame_at :: "dataframe \<Rightarrow> nat \<Rightarrow> string \<Rightarrow> error + string" where
  "frame_at df i column =
     (if column \<in> set (df_columns df) then Inr ((df_rows df ! i) column) else Inl KeyError)"

text \<open>
  The three branches at the end of the loop body of \<open>match\<close>, on \<open>len(top_matches)\<close>.
  The result is the row written to \<open>df_matched\<close> and what the iteration appends to
  \<open>scores\<close>.
\<close>

definition record_row :: "matcher \<Rightarrow> (nat \<times> status \<times> rat) list \<Rightarrow> error + (result_row \<times> rat list)" where
  "record_row self tm =
     (if length tm = 1 then
        (case hd tm of (index_from, st, sc) \<Rightarrow>
           (case map_err (frame_at (df_from self) index_from) (columns_to_get self) of
              Inl e \<Rightarrow> Inl e
            | Inr vals \<Rightarrow>
                Inr (\<lparr>copied = zip (columns_to_get self) vals, match_status = st,
                      row_index = PyInt (index_from + 2), match_score = Some sc\<rparr>, [sc])))
      else if 1 < length tm then
        Inr (\<lparr>copied = [], match_status = AMBIGUOUS,
              row_index = PyStr (join '', '' (map (\<lambda>(key, st, sc). str_nat (key + 2)) tm)),
              match_score = None\<rparr>, [])
      else
        Inr (\<lparr>copied = [], match_status = UNMATCHED, row_index = PyStr '''',
              match_score = None\<rparr>, []))"

subsection \<open>\<open>get_column_dupes\<close>\<close>

text \<open>
  On the cells of the chosen column: \<open>replace('', numpy.nan)\<close> turns an empty string into
  a missing value (\<open>None\<close>), \<open>duplicated(keep=False)\<close> marks every cell that occurs more
  than once (missing values count as equal to each other), \<open>dropna\<close> then removes the
  missing ones. The result is the positions and the values of the cells that remain.
\<close>

definition get_column_dupes :: "pycell list \<Rightarrow> nat list \<times> pycell list" where
  "get_column_dupes col =
     (let temp = map (\<lambda>c. if c = PyStr '''' then None else Some c) col;
          column_check = map (\<lambda>c. 1 < count_list temp c) temp;
          df_dupe = concat (map (\<lambda>(i, c, dup).
                       case c of None \<Rightarrow> [] | Some v \<Rightarrow> if dup then [(i, v)] else [])
                     (zip [0..<length col] (zip temp column_check)))
      in (map fst df_dupe, map snd df_dupe))"

subsection \<open>\<open>match\<close>\<close>

text \<open>\<open>[column for column in self.columns_to_match.keys() if self.columns_to_match[column]]\<close>\<close>

definition active_columns :: "matcher \<Rightarrow> string list" where
  "active_columns self =
     map fst (filter (\<lambda>(column, columns_from). columns_from \<noteq> []) (columns_to_match self))"

text \<open>\<open>sum([self.column_threshold[column] * uniqueness[column] for column in columns_to_match])\<close>\<close>

definition optimal_threshold :: "matcher \<Rightarrow> (string \<times> rat) list \<Rightarrow> string list \<Rightarrow> error + rat" where
  "optimal_threshold self uniqueness cols =
     (case map_err (\<lambda>column.
               case series_at uniqueness column of
                 Inl e \<Rightarrow> Inl e
               | Inr w \<Rightarrow> Inr (threshold_of self column * w)) cols of
        Inl e \<Rightarrow> Inl e
      | Inr products \<Rightarrow> Inr (sum_list products))"

text \<open>One iteration of the loop over the target rows.\<close>

definition match_row ::
  "(string \<Rightarrow> string \<Rightarrow> rat) \<Rightarrow> matcher \<Rightarrow> (string \<rightharpoonup> string list) \<Rightarrow> (string \<times> rat) list \<Rightarrow> rat \<Rightarrow>
   nat \<Rightarrow> error + (result_row \<times> rat list)" where
  "match_row scorer self ch uniqueness optimal index_to =
     (case compute_score scorer self ch index_to uniqueness of
        Inl e \<Rightarrow> Inl e
      | Inr match_scores \<Rightarrow> record_row self (top_matches self match_scores optimal))"

text \<open>\<open>match\<close> up to the end of the loop: the rows of \<open>df_matched\<close> before duplicates are
  resolved, each with the scores its iteration appended.\<close>

definition match_rows ::
  "(string \<Rightarrow> string \<Rightarrow> rat) \<Rightarrow> matcher \<Rightarrow> error + (result_row \<times> rat list) list" where
  "match_rows scorer self =
     (let cols = active_columns self in
      case adjusted_uniqueness (df_to self) cols of
        Inl e \<Rightarrow> Inl e
      | Inr uniqueness \<Rightarrow>
          (case optimal_threshold self uniqueness cols of
             Inl e \<Rightarrow> Inl e
           | Inr optimal \<Rightarrow>
               (case choices self of
                  Inl e \<Rightarrow> Inl e
                | Inr ch \<Rightarrow>
                    map_err (match_row scorer self ch uniqueness optimal)
                      [0..<len_df (df_to self)])))"

text \<open>\<open>df_matched.loc[dupe_index, 'match_status'] = "DUPLICATES"\<close>\<close>

definition mark_duplicates :: "nat list \<Rightarrow> result_row list \<Rightarrow> result_row list" where
  "mark_duplicates dupe_index df_matched =
     map (\<lambda>(i, r). if i \<in> set dupe_index then r\<lparr>match_status := DUPLICATES\<rparr> else r)
       (enumerate 0 df_matched)"

text \<open>
  The summary. A value is printed by an f-string followed by \<open>%\<close>: it is either one of the
  integer literals \<open>0\<close> and \<open>-1\<close> or a float rounded to two decimals. \<open>m_stat\<close> is
  \<open>value_counts()\<close> of the status column, a status is in its index when its count is
  positive.
\<close>

datatype pynum = IntLit int | Float rat

record match_info =
  total_match_score :: pynum
  average_match_score :: pynum
  highest_match_score :: pynum
  lowest_match_score :: pynum
  m_stat :: "status \<Rightarrow> nat"

definition summary :: "nat \<Rightarrow> result_row list \<Rightarrow> rat list \<Rightarrow> match_info" where
  "summary n df_matched scores =
     (let counts = (\<lambda>s. count_list (map match_status df_matched) s) in
      \<lparr>total_match_score =
         (if 0 < counts MATCHED then Float (round2 (of_nat (counts MATCHED) / of_nat n * 100))
          else IntLit 0),
       average_match_score =
         (if scores \<noteq> [] then Float (round2 (sum_list scores / of_nat (length scores)))
          else IntLit 0),
       highest_match_score =
         (if scores \<noteq> [] then Float (round2 (Max (set scores))) else IntLit (- 1)),
       lowest_match_score =
         (if scores \<noteq> [] then Float (round2 (Min (set scores))) else IntLit (- 1)),
       m_stat = counts\<rparr>)"

definition match :: "(string \<Rightarrow> string \<Rightarrow> rat) \<Rightarrow> matcher \<Rightarrow> error + (result_row list \<times> match_info)" where
  "match scorer self =
     (case match_rows scorer self of
        Inl e \<Rightarrow> Inl e
      | Inr looped \<Rightarrow>
          let rows = map fst looped;
              scores = concat (map snd looped);
              (dupe_index, dupes) = get_column_dupes (map row_index rows);
              df_matched = mark_duplicates dupe_index rows
          in Inr (df_matched, summary (len_df (df_to self)) df_matched scores))"

subsection \<open>Example tables\<close>

text \<open>
  A small run used to instantiate the theorems below: three target rows, two reference
  rows, both columns linked by name, and a scorer that gives 100 to equal strings and 50
  to different ones.
\<close>

definition ex_row :: "string \<Rightarrow> string \<Rightarrow> row" where
  "ex_row name city = (\<lambda>c. if c = ''name'' then name else if c = ''city'' then city else '''')"

definition ex_to :: dataframe where
  "ex_to = \<lparr>df_columns = [''name'', ''city''],
            df_rows = [ex_row ''Ann'' ''NY'', ex_row ''Ann'' ''NY'', ex_row ''Bob'' ''SF'']\<rparr>"

definition ex_from :: dataframe where
  "ex_from = \<lparr>df_columns = [''name'', ''city''],
              df_rows = [ex_row ''Ann'' ''NY'', ex_row ''Ann'' ''LA'']\<rparr>"

definition ex_scorer :: "string \<Rightarrow> string \<Rightarrow> rat" where
  "ex_scorer a b = (if a = b then 100 else 50)"

definition ex_matcher :: matcher where
  "ex_matcher =
     \<lparr>df_to = ex_to, df_from = ex_from,
      column_threshold = [''name'' \<mapsto> 75, ''city'' \<mapsto> 75],
      columns_to_match = [(''name'', [''name'']), (''city'', [''city''])],
      columns_to_get = [''city''], column_groups = [],
      required_threshold = 75, cutoff = False\<rparr>"

text \<open>What the loop of \<open>match\<close> produces on the example, and the table \<open>match\<close> returns:
  the first two target rows both claim reference row 0, the third has no candidate at
  or above the required threshold.\<close>

definition ex_rows :: "(result_row \<times> rat list) list" where
  "ex_rows =
     [(\<lparr>copied = [(''city'', ''NY'')], match_status = MATCHED, row_index = PyInt 2,
        match_score = Some 100\<rparr>, [100]),
      (\<lparr>copied = [(''city'', ''NY'')], match_status = MATCHED, row_index = PyInt 2,
        match_score = Some 100\<rparr>, [100]),
      (\<lparr>copied = [], match_status = UNMATCHED, row_index = PyStr '''',
        match_score = None\<rparr>, [])]"

definition ex_matched :: "result_row list" where
  "ex_matched =
     [\<lparr>copied = [(''city'', ''NY'')], match_status = DUPLICATES, row_index = PyInt 2,
       match_score = Some 100\<rparr>,
      \<lparr>copied = [(''city'', ''NY'')], match_status = DUPLICATES, row_index = PyInt 2,
       match_score = Some 100\<rparr>,
      \<lparr>copied = [], match_status = UNMATCHED, row_index = PyStr '''', match_score = None\<rparr>]"

text \<open>The example with a reference table that has columns but no row (and a group
  column), and with a target table that has no row.\<close>

definition ex_no_reference :: matcher where
  "ex_no_reference =
     ex_matcher\<lparr>df_from := \<lparr>df_columns = [''name'', ''city''], df_rows = []\<rparr>,
                column_groups := [''city'']\<rparr>"

definition ex_no_target :: matcher where
  "ex_no_target = ex_matcher\<lparr>df_to := \<lparr>df_columns = [''name'', ''city''], df_rows = []\<rparr>\<rparr>"

definition ex_unmatched :: "result_row list" where
  "ex_unmatched =
     [\<lparr>copied = [], match_status = UNMATCHED, row_index = PyStr '''', match_score = None\<rparr>,
      \<lparr>copied = [], match_status = UNMATCHED, row_index = PyStr '''', match_score = None\<rparr>,
      \<lparr>copied = [], match_status = UNMATCHED, row_index = PyStr '''', match_score = None\<rparr>]"

section \<open>Properties\<close>

subsection \<open>The \<open>df_from\<close> setter\<close>

lemma append_at_map:
  "distinct (map fst ctm) \<Longrightarrow>
   append_at (map (\<lambda>(k, vs). (k, g k)) ctm) key v =
   map (\<lambda>(k, vs). (k, if k = key then g k @ [v] else g k)) ctm"
proof (induction ctm)
  case Nil
  then show ?case by simp
next
  case (Cons a ctm)
  obtain k vs where a: "a = (k, vs)" by (cases a)
  show ?case
  proof (cases "k = key")
    case True
    with Cons.prems a have "key \<notin> set (map fst ctm)" by auto
    then have "\<forall>(k', vs') \<in> set ctm. k' \<noteq> key" by force
    then have "map (\<lambda>(k, vs). (k, if k = key then g k @ [v] else g k)) ctm =
               map (\<lambda>(k, vs). (k, g k)) ctm"
      by (intro map_cong) auto
    with True a show ?thesis by simp
  next
    case False
    with Cons a show ?thesis by simp
  qed
qed

lemma relink_map:
  "distinct (map fst ctm) \<Longrightarrow>
   relink (map (\<lambda>(k, vs). (k, g k)) ctm) cols =
   map (\<lambda>(k, vs). (k, g k @ filter (\<lambda>c. c = k) cols)) ctm"
proof (induction cols arbitrary: g)
  case Nil
  then show ?case by simp
next
  case (Cons c cols)
  have keys: "map fst (map (\<lambda>(k, vs). (k, g k)) ctm) = map fst ctm"
    by (induction ctm) auto
  show ?case
  proof (cases "c \<in> set (map fst ctm)")
    case True
    then have "relink (map (\<lambda>(k, vs). (k, g k)) ctm) (c # cols) =
          relink (map (\<lambda>(k, vs). (k, (\<lambda>k. if k = c then g k @ [c] else g k) k)) ctm) cols"
      using append_at_map [OF Cons.prems, of g c c] keys by simp
    also have "\<dots> = map (\<lambda>(k, vs).
                 (k, (if k = c then g k @ [c] else g k) @ filter (\<lambda>c. c = k) cols)) ctm"
      using Cons.IH [OF Cons.prems, of "\<lambda>k. if k = c then g k @ [c] else g k"] by simp
    also have "\<dots> = map (\<lambda>(k, vs). (k, g k @ filter (\<lambda>c. c = k) (c # cols))) ctm"
      by (intro map_cong) auto
    finally show ?thesis .
  next
    case False
    then have "\<forall>(k, vs) \<in> set ctm. k \<noteq> c" by force
    then have "map (\<lambda>(k, vs). (k, g k @ filter (\<lambda>c. c = k) (c # cols))) ctm =
               map (\<lambda>(k, vs). (k, g k @ filter (\<lambda>c. c = k) cols)) ctm"
      by (intro map_cong) auto
    with False keys Cons.IH [OF Cons.prems, of g] show ?thesis by simp
  qed
qed

text \<open>After both loops of the setter an entry holds its own key once for every column of
  the new table that carries that name, and nothing else.\<close>

lemma relink_clear_all:
  assumes "distinct (map fst ctm)"
  shows "relink (clear_all ctm) cols = map (\<lambda>(k, vs). (k, filter (\<lambda>c. c = k) cols)) ctm"
  using relink_map [OF assms, of "\<lambda>k. []" cols] by (simp add: clear_all_def)

lemma as_str_columns: "df_columns (as_str_blank_nan df) = df_columns df"
  by (simp add: as_str_blank_nan_def)

lemma map_of_map_val:
  "map_of (map (\<lambda>(k, vs). (k, h k)) ctm) key = map_option (\<lambda>vs. h key) (map_of ctm key)"
  by (induction ctm) auto

text \<open>
  C7, as the code has it. Assigning the reference table does not filter the previous
  entries of a key: whatever the key was linked to before, its list afterwards holds the
  key's own name if a column of the new reference table has that name, and is empty
  otherwise. The keys of a dictionary are distinct.
\<close>

theorem df_from_setter_links_by_name:
  assumes "distinct (map fst (columns_to_match self))"
  shows "map_of (columns_to_match (set_df_from self df)) key =
         map_option (\<lambda>previous. if key \<in> set (df_columns df)
                                 then filter (\<lambda>c. c = key) (df_columns df) else [])
           (map_of (columns_to_match self) key)"
proof -
  have "filter (\<lambda>c. c = key) (df_columns df) = []" if "key \<notin> set (df_columns df)"
    using that by (auto simp: filter_empty_conv)
  then show ?thesis
    using relink_clear_all [OF assms]
    by (auto simp add: set_df_from_def Let_def as_str_columns map_of_map_val
          intro!: map_option_cong)
qed

theorem df_from_setter_links_by_name_witness:
  "distinct (map fst (columns_to_match ex_matcher))
   \<and> map_of (columns_to_match
        (set_df_from ex_matcher \<lparr>df_columns = [''city'', ''zip''], df_rows = []\<rparr>)) ''city''
       = Some [''city'']
   \<and> map_of (columns_to_match
        (set_df_from ex_matcher \<lparr>df_columns = [''city'', ''zip''], df_rows = []\<rparr>)) ''name''
       = Some []"
  using df_from_setter_links_by_name
          [of ex_matcher "\<lparr>df_columns = [''city'', ''zip''], df_rows = []\<rparr>" "''city''"]
        df_from_setter_links_by_name
          [of ex_matcher "\<lparr>df_columns = [''city'', ''zip''], df_rows = []\<rparr>" "''name''"]
  by (simp add: ex_matcher_def)

text \<open>
  C7, as the specification words it, fails: the target column \<open>name\<close> is linked to the
  reference column \<open>full_name\<close>, the new reference table has a column \<open>full_name\<close>, and
  the link is gone after the assignment.
\<close>

theorem df_from_setter_drops_cross_link:
  "map_of (columns_to_match (ex_matcher\<lparr>columns_to_match := [(''name'', [''full_name''])]\<rparr>))
     ''name'' = Some [''full_name'']
   \<and> ''full_name'' \<in> set (df_columns \<lparr>df_columns = [''full_name''], df_rows = []\<rparr>)
   \<and> map_of (columns_to_match
        (set_df_from (ex_matcher\<lparr>columns_to_match := [(''name'', [''full_name''])]\<rparr>)
           \<lparr>df_columns = [''full_name''], df_rows = []\<rparr>)) ''name'' = Some []"
  by (simp add: set_df_from_def Let_def as_str_blank_nan_def clear_all_def)

text \<open>
  C10. The setter empties \<open>columns_to_get\<close> and rebuilds every list of the mapping from
  the new columns alone (no entry of a previous list survives the \<open>clear\<close>), and leaves
  \<open>required_threshold\<close>, \<open>column_threshold\<close>, \<open>column_groups\<close> and \<open>cutoff\<close> as they were.
\<close>

theorem df_from_setter_resets:
  assumes "distinct (map fst (columns_to_match self))"
  shows "columns_to_get (set_df_from self df) = []
       \<and> columns_to_match (set_df_from self df) =
           map (\<lambda>(k, previous). (k, filter (\<lambda>c. c = k) (df_columns df))) (columns_to_match self)
       \<and> required_threshold (set_df_from self df) = required_threshold self
       \<and> column_threshold (set_df_from self df) = column_threshold self
       \<and> column_groups (set_df_from self df) = column_groups self
       \<and> cutoff (set_df_from self df) = cutoff self"
  using relink_clear_all [OF assms] by (simp add: set_df_from_def Let_def as_str_columns)

theorem df_from_setter_resets_witness:
  "distinct (map fst (columns_to_match ex_matcher))
   \<and> columns_to_get ex_matcher = [''city'']
   \<and> columns_to_get (set_df_from ex_matcher \<lparr>df_columns = [''zip''], df_rows = []\<rparr>) = []
   \<and> columns_to_match (set_df_from ex_matcher \<lparr>df_columns = [''zip''], df_rows = []\<rparr>)
       = [(''name'', []), (''city'', [])]
   \<and> required_threshold (set_df_from ex_matcher \<lparr>df_columns = [''zip''], df_rows = []\<rparr>) = 75"
  using df_from_setter_resets [of ex_matcher "\<lparr>df_columns = [''zip''], df_rows = []\<rparr>"]
  by (simp add: ex_matcher_def)

subsection \<open>Uniqueness weights\<close>

lemma nunique_pos: "xs \<noteq> [] \<Longrightarrow> 0 < nunique xs"
  by (cases xs) (auto simp: nunique_def)

lemma sum_list_pos_rat:
  fixes f :: "'a \<Rightarrow> rat"
  assumes "xs \<noteq> []" "\<And>x. x \<in> set xs \<Longrightarrow> 0 < f x"
  shows "0 < sum_list (map f xs)"
proof -
  obtain a ys where xs: "xs = a # ys" using assms(1) by (cases xs) auto
  have "0 \<le> sum_list (map f ys)"
    using assms(2) xs by (intro sum_list_nonneg) (auto intro: less_imp_le)
  moreover have "0 < f a" using assms(2) xs by simp
  ultimately show ?thesis using xs by (simp add: add_pos_nonneg)
qed

lemma normalise_sum:
  fixes t :: rat
  shows "sum_list (map snd (map (\<lambda>(c, x). (c, x / t)) r)) = sum_list (map snd r) / t"
  by (induction r) (auto simp: add_divide_distrib)

lemma normalise_keys: "map fst (map (\<lambda>(c, x). (c, g x)) r) = map fst r"
  by (induction r) auto

lemma ratio_pos:
  assumes "0 < len_df df"
  shows "\<forall>(c, x) \<in> set (map (\<lambda>(c, x). (c, (of_nat x :: rat) / of_nat (len_df df)))
       (map (\<lambda>c. (c, nunique (map (\<lambda>r. r c) (df_rows df)))) selected_cols)). 0 < x"
proof -
  have "0 < (of_nat (nunique (map (\<lambda>r. r c) (df_rows df))) :: rat) / of_nat (len_df df)" for c
    using assms nunique_pos [of "map (\<lambda>r. r c) (df_rows df)"] by (simp add: len_df_def)
  then show ?thesis by auto
qed

lemma uniqueness_total_pos:
  assumes "selected_cols \<noteq> []" "0 < len_df df"
  shows "0 < sum_list (map snd (map (\<lambda>(c, x). (c, (of_nat x :: rat) / of_nat (len_df df)))
       (map (\<lambda>c. (c, nunique (map (\<lambda>r. r c) (df_rows df)))) selected_cols)))"
proof -
  let ?r = "map (\<lambda>(c, x). (c, (of_nat x :: rat) / of_nat (len_df df)))
       (map (\<lambda>c. (c, nunique (map (\<lambda>r. r c) (df_rows df)))) selected_cols)"
  have "?r \<noteq> []" using assms(1) by simp
  moreover have "\<And>p. p \<in> set ?r \<Longrightarrow> 0 < snd p"
    using ratio_pos [OF assms(2), of selected_cols] by (auto simp del: set_map map_map)
  ultimately show ?thesis by (rule sum_list_pos_rat)
qed

text \<open>
  C4. For a non-empty table and a non-empty selection of its columns,
  \<open>adjusted_uniqueness\<close> returns one positive weight per selected column, in order, and
  the weights sum to 1 (exactly, in rational arithmetic).
\<close>

theorem adjusted_uniqueness_sums_to_one:
  assumes "selected_cols \<noteq> []" "set selected_cols \<subseteq> set (df_columns df)" "0 < len_df df"
  shows "\<exists>u. adjusted_uniqueness df selected_cols = Inr u
           \<and> u = map (\<lambda>c. (c, (of_nat (nunique (map (\<lambda>r. r c) (df_rows df))) / of_nat (len_df df))
                               / (\<Sum>c'\<leftarrow>selected_cols.
                                    of_nat (nunique (map (\<lambda>r. r c') (df_rows df))) / of_nat (len_df df))))
                   selected_cols
           \<and> (\<forall>(c, w) \<in> set u. 0 < w)
           \<and> sum_list (map snd u) = 1"
proof -
  define r where "r = map (\<lambda>(c, x). (c, (of_nat x :: rat) / of_nat (len_df df)))
       (map (\<lambda>c. (c, nunique (map (\<lambda>r. r c) (df_rows df)))) selected_cols)"
  define t where "t = sum_list (map snd r)"
  define u where "u = map (\<lambda>(c, x). (c, x / t)) r"
  have pos: "0 < t"
    unfolding t_def r_def using uniqueness_total_pos [OF assms(1,3)] .
  have eq: "adjusted_uniqueness df selected_cols = Inr u"
    unfolding adjusted_uniqueness_def Let_def u_def t_def r_def using assms by simp
  have "map fst r = selected_cols"
    unfolding r_def by (simp add: comp_def)
  then have keys: "map fst u = selected_cols"
    unfolding u_def by (simp only: normalise_keys)
  have "sum_list (map snd u) = t / t"
    unfolding u_def by (simp only: normalise_sum t_def)
  with pos have one: "sum_list (map snd u) = 1" by simp
  have "\<forall>(c, x) \<in> set r. 0 < x"
    unfolding r_def by (rule ratio_pos [OF assms(3)])
  with pos have wpos: "\<forall>(c, w) \<in> set u. 0 < w"
    unfolding u_def by (auto simp: divide_pos_pos)
  have shape: "u = map (\<lambda>c. (c, (of_nat (nunique (map (\<lambda>r. r c) (df_rows df))) / of_nat (len_df df))
                               / (\<Sum>c'\<leftarrow>selected_cols.
                                    of_nat (nunique (map (\<lambda>r. r c') (df_rows df))) / of_nat (len_df df))))
                   selected_cols"
    unfolding u_def t_def r_def by (simp add: comp_def)
  from eq shape one wpos show ?thesis by blast
qed

theorem adjusted_uniqueness_sums_to_one_witness:
  "[''name'', ''city''] \<noteq> [] \<and> set [''name'', ''city''] \<subseteq> set (df_columns ex_to)
   \<and> 0 < len_df ex_to
   \<and> adjusted_uniqueness ex_to [''name'', ''city''] = Inr [(''name'', 1 / 2), (''city'', 1 / 2)]
   \<and> sum_list (map snd [(''name'', 1 / 2 :: rat), (''city'', 1 / 2)]) = 1"
  using adjusted_uniqueness_sums_to_one [of "[''name'', ''city'']" ex_to]
  by (simp add: ex_to_def len_df_def adjusted_uniqueness_def nunique_def ex_row_def)

subsection \<open>Loops that may raise\<close>

lemma map_err_InrD:
  "map_err f xs = Inr ys \<Longrightarrow> length ys = length xs \<and> (\<forall>i<length xs. f (xs ! i) = Inr (ys ! i))"
proof (induction xs arbitrary: ys)
  case Nil
  then show ?case by simp
next
  case (Cons x xs)
  from Cons.prems obtain y ys' where fx: "f x = Inr y" and rest: "map_err f xs = Inr ys'"
    and ys: "ys = y # ys'"
    by (auto split: sum.splits)
  from Cons.IH [OF rest] have len: "length ys' = length xs"
    and nth: "\<forall>i<length xs. f (xs ! i) = Inr (ys' ! i)" by auto
  show ?case
  proof (intro conjI allI impI)
    show "length ys = length (x # xs)" using len ys by simp
  next
    fix i assume "i < length (x # xs)"
    then show "f ((x # xs) ! i) = Inr (ys ! i)"
      using fx nth ys by (cases i) auto
  qed
qed


subsection \<open>Duplicate resolution\<close>

lemma count_list_blank_map:
  assumes "c \<noteq> PyStr ''''"
  shows "count_list (map (\<lambda>c. if c = PyStr '''' then None else Some c) col) (Some c) = count_list col c"
  using assms by (induction col) auto

lemma dupes_index_set:
  "set (fst (get_column_dupes col)) =
     {i. i < length col \<and> col ! i \<noteq> PyStr '''' \<and> 1 < count_list col (col ! i)}"
proof -
  let ?f = "\<lambda>c. if c = PyStr '''' then None else Some c"
  let ?temp = "map ?f col"
  let ?check = "map (\<lambda>c. 1 < count_list ?temp c) ?temp"
  let ?g = "\<lambda>(i, c, dup). case c of None \<Rightarrow> [] | Some v \<Rightarrow> if dup then [(i, v)] else []"
  have "set (fst (get_column_dupes col)) = fst ` (\<Union>x \<in> set (zip [0..<length col] (zip ?temp ?check)). set (?g x))"
    by (simp add: get_column_dupes_def Let_def)
  also have "\<dots> = {i. i < length col \<and> col ! i \<noteq> PyStr '''' \<and> 1 < count_list col (col ! i)}"
  proof (intro set_eqI iffI)
    fix i assume "i \<in> fst ` (\<Union>x \<in> set (zip [0..<length col] (zip ?temp ?check)). set (?g x))"
    then obtain j c dup v where mem: "(j, c, dup) \<in> set (zip [0..<length col] (zip ?temp ?check))"
      and iv: "(i, v) \<in> set (?g (j, c, dup))" by force
    from mem obtain n where n: "n < length col" "j = n" "c = ?temp ! n" "dup = ?check ! n"
      by (auto simp: in_set_zip)
    from iv have "c = Some v" "dup" "i = j" by (auto split: option.splits if_splits)
    with n have "col ! i \<noteq> PyStr ''''" "v = col ! i" "1 < count_list ?temp (Some (col ! i))" "i < length col"
      by (auto split: if_splits)
    then show "i \<in> {i. i < length col \<and> col ! i \<noteq> PyStr '''' \<and> 1 < count_list col (col ! i)}"
      by (simp add: count_list_blank_map)
  next
    fix i assume "i \<in> {i. i < length col \<and> col ! i \<noteq> PyStr '''' \<and> 1 < count_list col (col ! i)}"
    then have i: "i < length col" "col ! i \<noteq> PyStr ''''" "1 < count_list col (col ! i)" by auto
    then have "(i, ?temp ! i, ?check ! i) \<in> set (zip [0..<length col] (zip ?temp ?check))"
      by (auto simp: in_set_zip intro!: exI [of _ i])
    moreover have "(i, col ! i) \<in> set (?g (i, ?temp ! i, ?check ! i))"
      using i by (simp add: count_list_blank_map)
    ultimately show "i \<in> fst ` (\<Union>x \<in> set (zip [0..<length col] (zip ?temp ?check)). set (?g x))"
      by force
  qed
  finally show ?thesis .
qed

lemma mark_duplicates_length: "length (mark_duplicates d rows) = length rows"
  by (simp add: mark_duplicates_def)

lemma mark_duplicates_nth:
  "i < length rows \<Longrightarrow>
   mark_duplicates d rows ! i = (if i \<in> set d then (rows ! i)\<lparr>match_status := DUPLICATES\<rparr> else rows ! i)"
  by (simp add: mark_duplicates_def nth_enumerate_eq)


lemma count_list_two:
  assumes "i < j" "j < length xs" "xs ! i = xs ! j"
  shows "1 < count_list xs (xs ! j)"
proof -
  have split: "xs = take j xs @ xs ! j # drop (Suc j) xs"
    using assms(2) by (simp add: id_take_nth_drop)
  have "xs ! i \<in> set (take j xs)"
    using assms(1,2) by (auto simp: in_set_conv_nth intro!: exI [of _ i])
  then have "0 < count_list (take j xs) (xs ! j)"
    using assms(3) count_list_0_iff [of "take j xs" "xs ! j"] by auto
  moreover have "count_list xs (xs ! j) =
      count_list (take j xs) (xs ! j) + count_list (xs ! j # drop (Suc j) xs) (xs ! j)"
    using split count_list_append [of "take j xs" "xs ! j # drop (Suc j) xs" "xs ! j"] by simp
  ultimately show ?thesis by simp
qed

lemma count_list_shared:
  assumes "i \<noteq> j" "i < length xs" "j < length xs" "xs ! i = xs ! j"
  shows "1 < count_list xs (xs ! i)"
proof (cases "i < j")
  case True
  with assms count_list_two [of i j xs] show ?thesis by simp
next
  case False
  with assms have "j < i" by simp
  with assms count_list_two [of j i xs] show ?thesis by simp
qed


lemma resolved_row:
  assumes "i < length rows"
  defines "out \<equiv> mark_duplicates (fst (get_column_dupes (map row_index rows))) rows ! i"
  shows "match_status out =
           (if row_index (rows ! i) \<noteq> PyStr '''' \<and>
               1 < count_list (map row_index rows) (row_index (rows ! i))
            then DUPLICATES else match_status (rows ! i))"
    and "row_index out = row_index (rows ! i)"
    and "match_score out = match_score (rows ! i)"
    and "copied out = copied (rows ! i)"
  using assms by (auto simp: mark_duplicates_nth dupes_index_set)


subsection \<open>Classification of one row\<close>

lemma filter_highest_max: "(k, v) \<in> set (filter_highest ms) \<Longrightarrow> v = Max (set (map snd ms))"
  by (auto simp: filter_highest_def)

lemma filter_highest_nonempty:
  assumes "ms \<noteq> []"
  shows "\<exists>k. (k, Max (set (map snd ms))) \<in> set (filter_highest ms)"
proof -
  have "Max (set (map snd ms)) \<in> set (map snd ms)"
    using assms by (intro Max_in) auto
  then obtain k where "(k, Max (set (map snd ms))) \<in> set ms" by force
  then show ?thesis by (auto simp: filter_highest_def)
qed

lemma top_matches_Nil_iff:
  "top_matches self ms opt = [] \<longleftrightarrow>
   (\<forall>(k, v) \<in> set (filter_highest ms). round2 v < round2 (required_threshold self))"
  by (auto simp: top_matches_def filter_empty_conv not_le)

lemma top_matches_Nil_max:
  assumes "ms \<noteq> []"
  shows "top_matches self ms opt = [] \<longleftrightarrow>
         round2 (Max (set (map snd ms))) < round2 (required_threshold self)"
proof
  assume "top_matches self ms opt = []"
  with filter_highest_nonempty [OF assms] show "round2 (Max (set (map snd ms))) < round2 (required_threshold self)"
    by (auto simp: top_matches_Nil_iff)
next
  assume "round2 (Max (set (map snd ms))) < round2 (required_threshold self)"
  then show "top_matches self ms opt = []"
    using filter_highest_max [of _ _ ms] by (auto simp: top_matches_Nil_iff)
qed

lemma top_matches_entry:
  assumes "(k, st, v) \<in> set (top_matches self ms opt)"
  shows "st = (if v < opt then REVIEW else MATCHED)" "(k, v) \<in> set (filter_highest ms)"
        "round2 (required_threshold self) \<le> round2 v"
  using assms by (auto simp: top_matches_def)

lemma record_row_empty:
  "record_row self [] = Inr (\<lparr>copied = [], match_status = UNMATCHED, row_index = PyStr '''',
                             match_score = None\<rparr>, [])"
  by (simp add: record_row_def)

lemma record_row_single:
  assumes "record_row self [(k, st, v)] = Inr (r, sc)"
  shows "match_status r = st" "row_index r = PyInt (k + 2)" "match_score r = Some v" "sc = [v]"
  using assms by (auto simp: record_row_def split: sum.splits)

lemma record_row_several:
  assumes "1 < length tm"
  shows "record_row self tm =
         Inr (\<lparr>copied = [], match_status = AMBIGUOUS,
               row_index = PyStr (join '', '' (map (\<lambda>(key, st, sc). str_nat (key + 2)) tm)),
               match_score = None\<rparr>, [])"
  using assms by (simp add: record_row_def)

lemma length_cases:
  obtains "tm = []" | x where "tm = [x]" | "1 < length tm"
  by (cases tm; cases "tl tm") auto

text \<open>What the loop writes for a row is UNMATCHED exactly when no candidate is left.\<close>

lemma record_row_unmatched_iff:
  assumes "record_row self (top_matches self ms opt) = Inr (r, sc)"
  shows "match_status r = UNMATCHED \<longleftrightarrow> top_matches self ms opt = []"
proof (cases "top_matches self ms opt" rule: length_cases)
  case 1
  with assms show ?thesis by (auto simp: record_row_empty)
next
  case (2 x)
  obtain k st v where x: "x = (k, st, v)" by (cases x)
  with 2 have "(k, st, v) \<in> set (top_matches self ms opt)" by simp
  from top_matches_entry(1) [OF this] have "st \<noteq> UNMATCHED" by (simp split: if_splits)
  with assms 2 x record_row_single(1) [of self k st v r sc] show ?thesis by simp
next
  case 3
  with assms record_row_several [OF 3, of self] show ?thesis by auto
qed

lemma record_row_blank_iff:
  assumes "record_row self tm = Inr (r, sc)"
  shows "row_index r = PyStr '''' \<longleftrightarrow> tm = []"
proof (cases tm rule: length_cases)
  case 1
  with assms show ?thesis by (auto simp: record_row_empty)
next
  case (2 x)
  obtain k st v where x: "x = (k, st, v)" by (cases x)
  with assms 2 record_row_single(2) [of self k st v r sc] show ?thesis by simp
next
  case 3
  then obtain a b rest where tm: "tm = a # b # rest" by (cases tm; cases "tl tm") auto
  have "join '', '' (map (\<lambda>(key, st, sc). str_nat (key + 2)) tm) \<noteq> []"
    by (simp add: tm)
  with assms record_row_several [OF 3, of self] show ?thesis using 3 by auto
qed

subsection \<open>Unfolding a successful run of \<open>match\<close>\<close>

lemma match_rows_InrD:
  assumes "match_rows scorer self = Inr looped"
  shows "\<exists>u opt ch.
           adjusted_uniqueness (df_to self) (active_columns self) = Inr u
         \<and> optimal_threshold self u (active_columns self) = Inr opt
         \<and> choices self = Inr ch
         \<and> length looped = len_df (df_to self)
         \<and> (\<forall>i<len_df (df_to self). match_row scorer self ch u opt i = Inr (looped ! i))"
proof -
  from assms obtain u opt ch where
    u: "adjusted_uniqueness (df_to self) (active_columns self) = Inr u" and
    opt: "optimal_threshold self u (active_columns self) = Inr opt" and
    ch: "choices self = Inr ch" and
    loop: "map_err (match_row scorer self ch u opt) [0..<len_df (df_to self)] = Inr looped"
    by (auto simp: match_rows_def Let_def split: sum.splits)
  from map_err_InrD [OF loop] u opt ch show ?thesis by auto
qed


lemma match_InrD:
  assumes "match scorer self = Inr (df_matched, m_info)"
  shows "\<exists>looped. match_rows scorer self = Inr looped
         \<and> df_matched = mark_duplicates (fst (get_column_dupes (map row_index (map fst looped)))) (map fst looped)
         \<and> m_info = summary (len_df (df_to self)) df_matched (concat (map snd looped))"
  using assms by (auto simp: match_def Let_def split: sum.splits prod.splits)

lemma match_row_InrD:
  assumes "match_row scorer self ch u opt i = Inr (r, sc)"
  shows "\<exists>ms. compute_score scorer self ch i u = Inr ms
              \<and> record_row self (top_matches self ms opt) = Inr (r, sc)"
  using assms by (auto simp: match_row_def split: sum.splits)


text \<open>The example run, evaluated.\<close>

lemma ex_match_rows: "match_rows ex_scorer ex_matcher = Inr ex_rows"
  by code_simp

lemma ex_match: "match ex_scorer ex_matcher = Inr (ex_matched, summary 3 ex_matched [100, 100])"
proof -
  have a: "get_column_dupes (map row_index (map fst ex_rows)) = ([0, Suc 0], [PyInt 2, PyInt 2])"
    by code_simp
  have b: "mark_duplicates [0, Suc 0] (map fst ex_rows) = ex_matched" by code_simp
  have c: "concat (map snd ex_rows) = [100, 100]" by code_simp
  have d: "len_df (df_to ex_matcher) = 3" by code_simp
  show ?thesis unfolding match_def ex_match_rows by (simp add: a b c d Let_def del: map_map)
qed


subsection \<open>UNMATCHED rows\<close>

text \<open>
  C1. In the table \<open>match\<close> returns, a target row is UNMATCHED exactly when no candidate
  holding the maximum composite score passes the test
  \<open>round(score, 2) >= round(required_threshold, 2)\<close> of \<open>_top_matches\<close>; when the row has
  at least one scored candidate this is: the maximum, rounded to two decimals, is strictly
  below the rounded required threshold. A row without any scored candidate is UNMATCHED.
  An UNMATCHED row carries no reference position, no score and no copied value.
\<close>

theorem unmatched_iff_below_required:
  assumes "match scorer self = Inr (df_matched, m_info)" and "index_to < len_df (df_to self)"
  shows "\<exists>u ch match_scores.
           adjusted_uniqueness (df_to self) (active_columns self) = Inr u
         \<and> choices self = Inr ch
         \<and> compute_score scorer self ch index_to u = Inr match_scores
         \<and> (match_status (df_matched ! index_to) = UNMATCHED \<longleftrightarrow>
              (\<forall>(k, v) \<in> set (filter_highest match_scores).
                  round2 v < round2 (required_threshold self)))
         \<and> (match_scores \<noteq> [] \<longrightarrow>
              (match_status (df_matched ! index_to) = UNMATCHED \<longleftrightarrow>
                 round2 (Max (set (map snd match_scores))) < round2 (required_threshold self)))
         \<and> (match_status (df_matched ! index_to) = UNMATCHED \<longrightarrow>
                row_index (df_matched ! index_to) = PyStr ''''
              \<and> match_score (df_matched ! index_to) = None
              \<and> copied (df_matched ! index_to) = [])"
proof -
  from match_InrD [OF assms(1)] obtain looped where
    looped: "match_rows scorer self = Inr looped" and
    out: "df_matched = mark_duplicates (fst (get_column_dupes (map row_index (map fst looped)))) (map fst looped)"
    by blast
  from match_rows_InrD [OF looped] obtain u opt ch where
    u: "adjusted_uniqueness (df_to self) (active_columns self) = Inr u" and
    ch: "choices self = Inr ch" and
    len: "length looped = len_df (df_to self)" and
    row: "\<forall>i<len_df (df_to self). match_row scorer self ch u opt i = Inr (looped ! i)"
    by blast
  obtain r sc where rsc: "looped ! index_to = (r, sc)" by (cases "looped ! index_to")
  with row assms(2) have "match_row scorer self ch u opt index_to = Inr (r, sc)" by simp
  from match_row_InrD [OF this] obtain ms where
    ms: "compute_score scorer self ch index_to u = Inr ms" and
    rec: "record_row self (top_matches self ms opt) = Inr (r, sc)" by blast
  have i: "index_to < length (map fst looped)" using len assms(2) by simp
  have r: "map fst looped ! index_to = r" using i rsc by simp
  note res = resolved_row [OF i, folded out, unfolded r]
  have blank: "row_index r = PyStr '''' \<longleftrightarrow> top_matches self ms opt = []"
    by (rule record_row_blank_iff [OF rec])
  have unm: "match_status r = UNMATCHED \<longleftrightarrow> top_matches self ms opt = []"
    by (rule record_row_unmatched_iff [OF rec])
  have final: "match_status (df_matched ! index_to) = UNMATCHED \<longleftrightarrow> top_matches self ms opt = []"
    using res(1) blank unm by auto
  have cells: "match_status (df_matched ! index_to) = UNMATCHED \<longrightarrow>
                row_index (df_matched ! index_to) = PyStr ''''
              \<and> match_score (df_matched ! index_to) = None
              \<and> copied (df_matched ! index_to) = []"
  proof
    assume "match_status (df_matched ! index_to) = UNMATCHED"
    with final have "top_matches self ms opt = []" by simp
    with rec have "r = \<lparr>copied = [], match_status = UNMATCHED, row_index = PyStr '''',
                             match_score = None\<rparr>" by (auto simp: record_row_empty)
    with res show "row_index (df_matched ! index_to) = PyStr ''''
              \<and> match_score (df_matched ! index_to) = None
              \<and> copied (df_matched ! index_to) = []" by simp
  qed
  show ?thesis
    using u ch ms final cells top_matches_Nil_iff [of self ms opt] top_matches_Nil_max [of ms self opt]
    by (intro exI [of _ u] exI [of _ ch] exI [of _ ms]) simp
qed

theorem unmatched_iff_below_required_witness:
  "match ex_scorer ex_matcher = Inr (ex_matched, summary 3 ex_matched [100, 100])
   \<and> 2 < len_df (df_to ex_matcher)
   \<and> match_status (ex_matched ! 2) = UNMATCHED
   \<and> (\<exists>u ch match_scores.
           adjusted_uniqueness (df_to ex_matcher) (active_columns ex_matcher) = Inr u
         \<and> choices ex_matcher = Inr ch
         \<and> compute_score ex_scorer ex_matcher ch 2 u = Inr match_scores
         \<and> (\<forall>(k, v) \<in> set (filter_highest match_scores).
                  round2 v < round2 (required_threshold ex_matcher)))"
proof -
  have len: "2 < len_df (df_to ex_matcher)" by code_simp
  have st: "match_status (ex_matched ! 2) = UNMATCHED" by code_simp
  from unmatched_iff_below_required [OF ex_match len] st len ex_match show ?thesis
    by auto
qed

subsection \<open>MATCHED and REVIEW\<close>

lemma map_err_total:
  "(\<And>x. x \<in> set xs \<Longrightarrow> f x = Inr (g x)) \<Longrightarrow> map_err f xs = Inr (map g xs)"
  by (induction xs) auto

lemma adjusted_uniqueness_shape:
  assumes "adjusted_uniqueness df cols = Inr u"
  shows "\<exists>g. u = map (\<lambda>c. (c, g c)) cols"
proof -
  define t where "t = sum_list (map snd (map (\<lambda>(c, x). (c, (of_nat x :: rat) / of_nat (len_df df)))
       (map (\<lambda>c. (c, nunique (map (\<lambda>r. r c) (df_rows df)))) cols)))"
  define g where "g = (\<lambda>c. (of_nat (nunique (map (\<lambda>r. r c) (df_rows df))) :: rat) / of_nat (len_df df) / t)"
  from assms have "u = map (\<lambda>(c, x). (c, x / t)) (map (\<lambda>(c, x). (c, (of_nat x :: rat) / of_nat (len_df df)))
       (map (\<lambda>c. (c, nunique (map (\<lambda>r. r c) (df_rows df)))) cols))"
    unfolding adjusted_uniqueness_def Let_def t_def by (simp split: if_splits del: map_map)
  then have "u = map (\<lambda>c. (c, g c)) cols"
    by (simp add: comp_def g_def)
  then show ?thesis by blast
qed

lemma series_at_keyed:
  "c \<in> set cols \<Longrightarrow> series_at (map (\<lambda>c. (c, g c)) cols) c = Inr (g c)"
  by (induction cols) (auto simp: series_at_def)

lemma optimal_threshold_sum:
  assumes "optimal_threshold self (map (\<lambda>c. (c, g c)) cols) cols = Inr opt"
  shows "opt = sum_list (map (\<lambda>(column, weight). threshold_of self column * weight)
                  (map (\<lambda>c. (c, g c)) cols))"
proof -
  have "map_err (\<lambda>column. case series_at (map (\<lambda>c. (c, g c)) cols) column of
                 Inl e \<Rightarrow> Inl e | Inr w \<Rightarrow> Inr (threshold_of self column * w)) cols
        = Inr (map (\<lambda>c. threshold_of self c * g c) cols)"
    by (rule map_err_total) (simp add: series_at_keyed)
  with assms have "opt = sum_list (map (\<lambda>c. threshold_of self c * g c) cols)"
    by (simp add: optimal_threshold_def)
  then show ?thesis by (simp add: comp_def)
qed

lemma mark_duplicates_row_index:
  "map row_index (mark_duplicates d rows) = map row_index rows"
  by (rule nth_equalityI) (simp_all add: mark_duplicates_length mark_duplicates_nth)


text \<open>More of the example run.\<close>

lemma ex_uniqueness:
  "adjusted_uniqueness (df_to ex_matcher) (active_columns ex_matcher) =
     Inr [(''name'', 1 / 2), (''city'', 1 / 2)]"
  by code_simp

lemma ex_optimal:
  "optimal_threshold ex_matcher [(''name'', 1 / 2), (''city'', 1 / 2)] (active_columns ex_matcher)
     = Inr 75"
  by code_simp

lemma ex_scores:
  "case choices ex_matcher of
     Inl e \<Rightarrow> False
   | Inr ch \<Rightarrow>
       compute_score ex_scorer ex_matcher ch 0 [(''name'', 1 / 2), (''city'', 1 / 2)]
         = Inr [(0, 100), (1, 75)]
     \<and> compute_score ex_scorer ex_matcher ch 1 [(''name'', 1 / 2), (''city'', 1 / 2)]
         = Inr [(0, 100), (1, 75)]
     \<and> compute_score ex_scorer ex_matcher ch 2 [(''name'', 1 / 2), (''city'', 1 / 2)]
         = Inr [(0, 50), (1, 50)]"
  by code_simp

lemma ex_top:
  "filter (\<lambda>(k, v). round2 (required_threshold ex_matcher) \<le> round2 v)
     (filter_highest [(0, 100), (1, 75)]) = [(0, 100)]"
  "top_matches ex_matcher [(0, 100), (1, 75)] 75 = [(0, MATCHED, 100)]"
  by code_simp+


text \<open>
  C2. The optimal threshold is the sum, over the actively mapped columns, of the column's
  threshold times its uniqueness weight. When exactly one candidate holds the maximum
  score of a target row and passes the required threshold, the loop of \<open>match\<close> gives the
  row the status MATCHED if that score is at least the optimal threshold and REVIEW if it
  is below. The returned table shows this status unless the recorded reference position
  occurs in another row as well, in which case duplicate resolution has replaced it.
\<close>

theorem single_candidate_matched_or_review:
  assumes "match scorer self = Inr (df_matched, m_info)" and "index_to < len_df (df_to self)"
  shows "\<exists>u opt ch match_scores looped.
           adjusted_uniqueness (df_to self) (active_columns self) = Inr u
         \<and> map fst u = active_columns self
         \<and> optimal_threshold self u (active_columns self) = Inr opt
         \<and> opt = sum_list (map (\<lambda>(column, weight). threshold_of self column * weight) u)
         \<and> choices self = Inr ch
         \<and> compute_score scorer self ch index_to u = Inr match_scores
         \<and> match_rows scorer self = Inr looped
         \<and> (\<forall>k v. filter (\<lambda>(k, v). round2 (required_threshold self) \<le> round2 v)
                      (filter_highest match_scores) = [(k, v)] \<longrightarrow>
                match_status (fst (looped ! index_to)) = (if opt \<le> v then MATCHED else REVIEW)
              \<and> match_status (df_matched ! index_to) =
                  (if 1 < count_list (map row_index df_matched) (PyInt (k + 2)) then DUPLICATES
                   else if opt \<le> v then MATCHED else REVIEW))"
proof -
  from match_InrD [OF assms(1)] obtain looped where
    looped: "match_rows scorer self = Inr looped" and
    out: "df_matched = mark_duplicates (fst (get_column_dupes (map row_index (map fst looped)))) (map fst looped)"
    by blast
  from match_rows_InrD [OF looped] obtain u opt ch where
    u: "adjusted_uniqueness (df_to self) (active_columns self) = Inr u" and
    opt: "optimal_threshold self u (active_columns self) = Inr opt" and
    ch: "choices self = Inr ch" and
    len: "length looped = len_df (df_to self)" and
    row: "\<forall>i<len_df (df_to self). match_row scorer self ch u opt i = Inr (looped ! i)"
    by blast
  from adjusted_uniqueness_shape [OF u] obtain g where
    g: "u = map (\<lambda>c. (c, g c)) (active_columns self)" by blast
  have keys: "map fst u = active_columns self" by (simp add: g comp_def)
  have sum: "opt = sum_list (map (\<lambda>(column, weight). threshold_of self column * weight) u)"
    using optimal_threshold_sum [of self g "active_columns self" opt] opt g by simp
  obtain r sc where rsc: "looped ! index_to = (r, sc)" by (cases "looped ! index_to")
  with row assms(2) have "match_row scorer self ch u opt index_to = Inr (r, sc)" by simp
  from match_row_InrD [OF this] obtain ms where
    ms: "compute_score scorer self ch index_to u = Inr ms" and
    rec: "record_row self (top_matches self ms opt) = Inr (r, sc)" by blast
  have i: "index_to < length (map fst looped)" using len assms(2) by simp
  have r: "map fst looped ! index_to = r" using i rsc by simp
  note res = resolved_row [OF i, folded out, unfolded r]
  have cols: "map row_index df_matched = map row_index (map fst looped)"
    unfolding out by (rule mark_duplicates_row_index)
  have single: "match_status (fst (looped ! index_to)) = (if opt \<le> v then MATCHED else REVIEW)
              \<and> match_status (df_matched ! index_to) =
                  (if 1 < count_list (map row_index df_matched) (PyInt (k + 2)) then DUPLICATES
                   else if opt \<le> v then MATCHED else REVIEW)"
    if one: "filter (\<lambda>(k, v). round2 (required_threshold self) \<le> round2 v) (filter_highest ms) = [(k, v)]"
    for k v
  proof -
    have tm: "top_matches self ms opt = [(k, if v < opt then REVIEW else MATCHED, v)]"
      by (simp add: top_matches_def one)
    from rec have st: "match_status r = (if v < opt then REVIEW else MATCHED)"
      and ri: "row_index r = PyInt (k + 2)"
      unfolding tm by (rule record_row_single(1), rule record_row_single(2))
    from st have st': "match_status r = (if opt \<le> v then MATCHED else REVIEW)" by auto
    show ?thesis using res(1) st' ri rsc cols by simp
  qed
  show ?thesis
    using u keys opt sum ch ms looped single
    by (intro exI [of _ u] exI [of _ opt] exI [of _ ch] exI [of _ ms] exI [of _ looped]) blast
qed


theorem single_candidate_matched_or_review_witness:
  "match ex_scorer ex_matcher = Inr (ex_matched, summary 3 ex_matched [100, 100])
   \<and> 0 < len_df (df_to ex_matcher)
   \<and> (\<exists>u opt ch match_scores.
          adjusted_uniqueness (df_to ex_matcher) (active_columns ex_matcher) = Inr u
        \<and> optimal_threshold ex_matcher u (active_columns ex_matcher) = Inr opt
        \<and> opt = 75
        \<and> choices ex_matcher = Inr ch
        \<and> compute_score ex_scorer ex_matcher ch 0 u = Inr match_scores
        \<and> filter (\<lambda>(k, v). round2 (required_threshold ex_matcher) \<le> round2 v)
             (filter_highest match_scores) = [(0, 100)]
        \<and> match_status (fst (ex_rows ! 0)) = MATCHED
        \<and> match_status (ex_matched ! 0) = DUPLICATES)"
proof -
  have l0: "0 < len_df (df_to ex_matcher)" by code_simp
  from single_candidate_matched_or_review [OF ex_match l0] obtain u opt ch match_scores looped where
    u: "adjusted_uniqueness (df_to ex_matcher) (active_columns ex_matcher) = Inr u" and
    opt: "optimal_threshold ex_matcher u (active_columns ex_matcher) = Inr opt" and
    ch: "choices ex_matcher = Inr ch" and
    ms: "compute_score ex_scorer ex_matcher ch 0 u = Inr match_scores" and
    looped: "match_rows ex_scorer ex_matcher = Inr looped" and
    single: "\<And>k v. filter (\<lambda>(k, v). round2 (required_threshold ex_matcher) \<le> round2 v)
                      (filter_highest match_scores) = [(k, v)] \<Longrightarrow>
                match_status (fst (looped ! 0)) = (if opt \<le> v then MATCHED else REVIEW)
              \<and> match_status (ex_matched ! 0) =
                  (if 1 < count_list (map row_index ex_matched) (PyInt (k + 2)) then DUPLICATES
                   else if opt \<le> v then MATCHED else REVIEW)"
    by blast
  from u ex_uniqueness have u': "u = [(''name'', 1 / 2), (''city'', 1 / 2)]" by simp
  from opt ex_optimal have opt': "opt = 75" by (simp add: u')
  from ex_scores ch ms have s: "match_scores = [(0, 100), (1, 75)]" by (simp add: u')
  from looped ex_match_rows have lp: "looped = ex_rows" by simp
  have f: "filter (\<lambda>(k, v). round2 (required_threshold ex_matcher) \<le> round2 v)
             (filter_highest match_scores) = [(0, 100)]"
    unfolding s by (rule ex_top(1))
  have cnt: "1 < count_list (map row_index ex_matched) (PyInt (0 + 2))" by code_simp
  from single [OF f] have "match_status (fst (ex_rows ! 0)) = MATCHED"
    and "match_status (ex_matched ! 0) = DUPLICATES"
    using cnt by (simp_all add: opt' lp)
  with u opt opt' ch ms f
  have "\<exists>u opt ch match_scores.
          adjusted_uniqueness (df_to ex_matcher) (active_columns ex_matcher) = Inr u
        \<and> optimal_threshold ex_matcher u (active_columns ex_matcher) = Inr opt
        \<and> opt = 75
        \<and> choices ex_matcher = Inr ch
        \<and> compute_score ex_scorer ex_matcher ch 0 u = Inr match_scores
        \<and> filter (\<lambda>(k, v). round2 (required_threshold ex_matcher) \<le> round2 v)
             (filter_highest match_scores) = [(0, 100)]
        \<and> match_status (fst (ex_rows ! 0)) = MATCHED
        \<and> match_status (ex_matched ! 0) = DUPLICATES"
    by blast
  then show ?thesis by (intro conjI ex_match l0)
qed

subsection \<open>DUPLICATES\<close>

text \<open>
  C6. If two distinct target rows each have a single best candidate (a MATCHED or REVIEW
  classification) and it is the same reference row for both, both rows have the status
  DUPLICATES in the table \<open>match\<close> returns.
\<close>

theorem shared_candidate_duplicates:
  assumes "match scorer self = Inr (df_matched, m_info)"
    and "i < len_df (df_to self)" and "j < len_df (df_to self)" and "i \<noteq> j"
  shows "\<exists>u opt ch scores_i scores_j.
           adjusted_uniqueness (df_to self) (active_columns self) = Inr u
         \<and> optimal_threshold self u (active_columns self) = Inr opt
         \<and> choices self = Inr ch
         \<and> compute_score scorer self ch i u = Inr scores_i
         \<and> compute_score scorer self ch j u = Inr scores_j
         \<and> (\<forall>k st_i v_i st_j v_j.
                top_matches self scores_i opt = [(k, st_i, v_i)]
              \<and> top_matches self scores_j opt = [(k, st_j, v_j)] \<longrightarrow>
                match_status (df_matched ! i) = DUPLICATES
              \<and> match_status (df_matched ! j) = DUPLICATES)"
proof -
  from match_InrD [OF assms(1)] obtain looped where
    looped: "match_rows scorer self = Inr looped" and
    out: "df_matched = mark_duplicates (fst (get_column_dupes (map row_index (map fst looped)))) (map fst looped)"
    by blast
  from match_rows_InrD [OF looped] obtain u opt ch where
    u: "adjusted_uniqueness (df_to self) (active_columns self) = Inr u" and
    opt: "optimal_threshold self u (active_columns self) = Inr opt" and
    ch: "choices self = Inr ch" and
    len: "length looped = len_df (df_to self)" and
    row: "\<forall>i<len_df (df_to self). match_row scorer self ch u opt i = Inr (looped ! i)"
    by blast
  obtain ri si where rsi: "looped ! i = (ri, si)" by (cases "looped ! i")
  obtain rj sj where rsj: "looped ! j = (rj, sj)" by (cases "looped ! j")
  from row assms(2) rsi have "match_row scorer self ch u opt i = Inr (ri, si)" by simp
  from match_row_InrD [OF this] obtain msi where
    msi: "compute_score scorer self ch i u = Inr msi" and
    reci: "record_row self (top_matches self msi opt) = Inr (ri, si)" by blast
  from row assms(3) rsj have "match_row scorer self ch u opt j = Inr (rj, sj)" by simp
  from match_row_InrD [OF this] obtain msj where
    msj: "compute_score scorer self ch j u = Inr msj" and
    recj: "record_row self (top_matches self msj opt) = Inr (rj, sj)" by blast
  let ?rows = "map fst looped"
  have i: "i < length ?rows" and j: "j < length ?rows" using len assms(2,3) by simp_all
  have ri: "?rows ! i = ri" and rj: "?rows ! j = rj" using i j rsi rsj by simp_all
  note resi = resolved_row(1) [OF i, folded out, unfolded ri]
  note resj = resolved_row(1) [OF j, folded out, unfolded rj]
  have both: "match_status (df_matched ! i) = DUPLICATES \<and> match_status (df_matched ! j) = DUPLICATES"
    if tmi: "top_matches self msi opt = [(k, st_i, v_i)]"
      and tmj: "top_matches self msj opt = [(k, st_j, v_j)]" for k st_i v_i st_j v_j
  proof -
    from reci have ci: "row_index ri = PyInt (k + 2)" unfolding tmi by (rule record_row_single(2))
    from recj have cj: "row_index rj = PyInt (k + 2)" unfolding tmj by (rule record_row_single(2))
    have same: "map row_index ?rows ! i = map row_index ?rows ! j"
      using i j ri rj ci cj by (simp del: map_map)
    have "1 < count_list (map row_index ?rows) (map row_index ?rows ! i)"
      using count_list_shared [OF assms(4) _ _ same] i j by simp
    moreover have "map row_index ?rows ! i = PyInt (k + 2)" using i ri ci by (simp del: map_map)
    ultimately have "1 < count_list (map row_index ?rows) (PyInt (k + 2))" by simp
    with resi resj ci cj show ?thesis by simp
  qed
  show ?thesis
    using u opt ch msi msj both
    by (intro exI [of _ u] exI [of _ opt] exI [of _ ch] exI [of _ msi] exI [of _ msj]) blast
qed

theorem shared_candidate_duplicates_witness:
  "match ex_scorer ex_matcher = Inr (ex_matched, summary 3 ex_matched [100, 100])
   \<and> 0 < len_df (df_to ex_matcher) \<and> 1 < len_df (df_to ex_matcher) \<and> (0 :: nat) \<noteq> 1
   \<and> (\<exists>u opt ch scores_i scores_j.
          adjusted_uniqueness (df_to ex_matcher) (active_columns ex_matcher) = Inr u
        \<and> optimal_threshold ex_matcher u (active_columns ex_matcher) = Inr opt
        \<and> choices ex_matcher = Inr ch
        \<and> compute_score ex_scorer ex_matcher ch 0 u = Inr scores_i
        \<and> compute_score ex_scorer ex_matcher ch 1 u = Inr scores_j
        \<and> top_matches ex_matcher scores_i opt = [(0, MATCHED, 100)]
        \<and> top_matches ex_matcher scores_j opt = [(0, MATCHED, 100)]
        \<and> match_status (ex_matched ! 0) = DUPLICATES
        \<and> match_status (ex_matched ! 1) = DUPLICATES)"
proof -
  have l0: "0 < len_df (df_to ex_matcher)" and l1: "1 < len_df (df_to ex_matcher)"
    by code_simp+
  have ne: "(0 :: nat) \<noteq> 1" by simp
  from shared_candidate_duplicates [OF ex_match l0 l1 ne] obtain u opt ch scores_i scores_j where
    u: "adjusted_uniqueness (df_to ex_matcher) (active_columns ex_matcher) = Inr u" and
    opt: "optimal_threshold ex_matcher u (active_columns ex_matcher) = Inr opt" and
    ch: "choices ex_matcher = Inr ch" and
    si: "compute_score ex_scorer ex_matcher ch 0 u = Inr scores_i" and
    sj: "compute_score ex_scorer ex_matcher ch 1 u = Inr scores_j" and
    dup: "\<And>k st_i v_i st_j v_j.
            top_matches ex_matcher scores_i opt = [(k, st_i, v_i)] \<Longrightarrow>
            top_matches ex_matcher scores_j opt = [(k, st_j, v_j)] \<Longrightarrow>
            match_status (ex_matched ! 0) = DUPLICATES \<and> match_status (ex_matched ! 1) = DUPLICATES"
    by blast
  from u ex_uniqueness have u': "u = [(''name'', 1 / 2), (''city'', 1 / 2)]" by simp
  from opt ex_optimal have opt': "opt = 75" by (simp add: u')
  from ex_scores ch si sj have s: "scores_i = [(0, 100), (1, 75)]" "scores_j = [(0, 100), (1, 75)]"
    by (simp_all add: u')
  have ti: "top_matches ex_matcher scores_i opt = [(0, MATCHED, 100)]"
    and tj: "top_matches ex_matcher scores_j opt = [(0, MATCHED, 100)]"
    unfolding s opt' by (rule ex_top(2))+
  from dup [OF ti tj] u opt ch si sj ti tj
  have "\<exists>u opt ch scores_i scores_j.
          adjusted_uniqueness (df_to ex_matcher) (active_columns ex_matcher) = Inr u
        \<and> optimal_threshold ex_matcher u (active_columns ex_matcher) = Inr opt
        \<and> choices ex_matcher = Inr ch
        \<and> compute_score ex_scorer ex_matcher ch 0 u = Inr scores_i
        \<and> compute_score ex_scorer ex_matcher ch 1 u = Inr scores_j
        \<and> top_matches ex_matcher scores_i opt = [(0, MATCHED, 100)]
        \<and> top_matches ex_matcher scores_j opt = [(0, MATCHED, 100)]
        \<and> match_status (ex_matched ! 0) = DUPLICATES
        \<and> match_status (ex_matched ! 1) = DUPLICATES"
    by blast
  then show ?thesis by (intro conjI ex_match l0 l1 ne)
qed

subsection \<open>Folds that may raise\<close>

lemma fold_err_invariant:
  assumes "fold_err f s xs = Inr s'" and "P s"
    and "\<And>s x s'. P s \<Longrightarrow> x \<in> set xs \<Longrightarrow> f s x = Inr s' \<Longrightarrow> P s'"
  shows "P s'"
  using assms
proof (induction xs arbitrary: s)
  case Nil
  then show ?case by simp
next
  case (Cons x xs)
  from Cons.prems(1) obtain s1 where s1: "f s x = Inr s1" and rest: "fold_err f s1 xs = Inr s'"
    by (cases "f s x") simp_all
  have "P s1" using Cons.prems(3) [OF Cons.prems(2) _ s1] by simp
  moreover have "P t'" if "P t" "y \<in> set xs" "f t y = Inr t'" for t y t'
    using Cons.prems(3) [of t y t'] that by simp
  ultimately show ?case by (rule Cons.IH [OF rest])
qed

lemma fold_err_cong:
  assumes "\<And>s x. x \<in> set xs \<Longrightarrow> f s x = g s x"
  shows "fold_err f s xs = fold_err g s xs"
  using assms by (induction xs arbitrary: s) (auto split: sum.splits)

lemma fold_err_total:
  assumes "\<And>s x. x \<in> set xs \<Longrightarrow> f s x = Inr (h s x)"
  shows "fold_err f s xs = Inr (fold (\<lambda>x s. h s x) xs s)"
  using assms by (induction xs arbitrary: s) auto

subsection \<open>An empty reference table\<close>

text \<open>With no reference row every choice column is empty and no candidate is scored.\<close>

lemma add_choice_empty:
  assumes "len_df ref = 0" and "column_from \<in> set (df_columns ref)"
  shows "add_choice ref column_to ch column_from = Inr (ch(column_to \<mapsto> []))"
  using assms by (auto simp: add_choice_def get_column_def len_df_def split: option.splits)

lemma add_choices_empty:
  assumes "len_df ref = 0" and "set columns_from \<subseteq> set (df_columns ref)"
  shows "fold_err (add_choice ref column_to) ch columns_from =
         Inr (if columns_from = [] then ch else ch(column_to \<mapsto> []))"
  using assms(2)
proof (induction columns_from arbitrary: ch)
  case Nil
  then show ?case by simp
next
  case (Cons c cs)
  from Cons.prems have c: "c \<in> set (df_columns ref)" and cs: "set cs \<subseteq> set (df_columns ref)"
    by simp_all
  have "fold_err (add_choice ref column_to) ch (c # cs) =
        fold_err (add_choice ref column_to) (ch(column_to \<mapsto> [])) cs"
    by (simp only: fold_err.simps add_choice_empty [OF assms(1) c] sum.case)
  also have "\<dots> = Inr (if cs = [] then ch(column_to \<mapsto> [])
                        else (ch(column_to \<mapsto> []))(column_to \<mapsto> []))"
    by (rule Cons.IH [OF cs])
  also have "\<dots> = Inr (ch(column_to \<mapsto> []))"
    by (simp only: fun_upd_upd if_cancel)
  finally show ?case by (simp only: list.distinct if_False)
qed

lemma choices_fold_empty:
  assumes "len_df ref = 0"
    and "\<forall>(column_to, columns_from) \<in> set ctm. set columns_from \<subseteq> set (df_columns ref)"
  shows "fold_err (\<lambda>ch (column_to, columns_from). fold_err (add_choice ref column_to) ch columns_from)
           ch0 ctm =
         Inr (\<lambda>c. if c \<in> set (map fst (filter (\<lambda>(column, columns_from). columns_from \<noteq> []) ctm))
                   then Some [] else ch0 c)"
  using assms(2)
proof (induction ctm arbitrary: ch0)
  case Nil
  then show ?case by simp
next
  case (Cons a ctm)
  obtain ct cf where a: "a = (ct, cf)" by (cases a)
  with Cons.prems have cf: "set cf \<subseteq> set (df_columns ref)"
    and rest: "\<forall>(column_to, columns_from) \<in> set ctm. set columns_from \<subseteq> set (df_columns ref)"
    by auto
  let ?step = "\<lambda>ch (column_to, columns_from). fold_err (add_choice ref column_to) ch columns_from"
  let ?ch1 = "if cf = [] then ch0 else ch0(ct \<mapsto> [])"
  have "fold_err ?step ch0 (a # ctm) = fold_err ?step ?ch1 ctm"
    unfolding a by (simp only: fold_err.simps prod.case add_choices_empty [OF assms(1) cf] sum.case)
  also have "\<dots> = Inr (\<lambda>c. if c \<in> set (map fst (filter (\<lambda>(column, columns_from). columns_from \<noteq> []) ctm))
                   then Some [] else ?ch1 c)"
    by (rule Cons.IH [OF rest])
  also have "(\<lambda>c. if c \<in> set (map fst (filter (\<lambda>(column, columns_from). columns_from \<noteq> []) ctm))
                   then Some [] else ?ch1 c) =
             (\<lambda>c. if c \<in> set (map fst (filter (\<lambda>(column, columns_from). columns_from \<noteq> []) (a # ctm)))
                   then Some [] else ch0 c)"
  proof (rule ext)
    fix c
    show "(if c \<in> set (map fst (filter (\<lambda>(column, columns_from). columns_from \<noteq> []) ctm))
                   then Some [] else ?ch1 c) =
          (if c \<in> set (map fst (filter (\<lambda>(column, columns_from). columns_from \<noteq> []) (a # ctm)))
                   then Some [] else ch0 c)"
      unfolding a by (cases "cf = []") simp_all
  qed
  finally show ?case .
qed

lemma choices_empty_reference:
  assumes "len_df (df_from self) = 0"
    and "\<forall>(column_to, columns_from) \<in> set (columns_to_match self).
           set columns_from \<subseteq> set (df_columns (df_from self))"
  shows "choices self = Inr (\<lambda>c. if c \<in> set (active_columns self) then Some [] else None)"
  unfolding choices_def active_columns_def
  using choices_fold_empty [OF assms, of Map.empty] by simp

lemma subset_fold_empty:
  assumes "set groups \<subseteq> set (df_columns (df_from self)) \<inter> set (df_columns (df_to self))"
  shows "fold_err (\<lambda>df group.
                 if group \<in> set (df_columns (df_from self)) \<and> group \<in> set (df_columns (df_to self))
                 then Inr (filter (\<lambda>(i :: nat, r). r group = row_to group) df)
                 else Inl KeyError) [] groups = Inr []"
  using assms by (induction groups) auto

lemma subset_index_empty_reference:
  assumes "len_df (df_from self) = 0"
    and "set (column_groups self) \<subseteq> set (df_columns (df_from self)) \<inter> set (df_columns (df_to self))"
  shows "subset_index self row_to = Inr []"
  using assms(1) subset_fold_empty [OF assms(2), of row_to]
  by (simp add: subset_index_def len_df_def)

lemma process_extract_nothing: "process_extract scorer q [] limit score_cutoff = []"
  by (simp add: process_extract_def)

lemma score_column_empty_column:
  assumes "columns_from \<noteq> []" and "column_to \<in> set (df_columns (df_to self))"
    and "ch column_to = Some []"
  shows "score_column scorer self ch row_to [] u ms (column_to, columns_from) = Inr ms"
  unfolding score_column_def prod.case
  by (simp only: assms if_False if_True not_True_eq_False not_not option.case Let_def list.map
        enumerate_simps refl process_extract_nothing fold_err.simps)

lemma score_column_empty_reference:
  assumes "item \<in> set (columns_to_match self)"
    and "set (active_columns self) \<subseteq> set (df_columns (df_to self))"
  shows "score_column scorer self (\<lambda>c. if c \<in> set (active_columns self) then Some [] else None)
           row_to [] u ms item = Inr ms"
proof -
  obtain column_to columns_from where item: "item = (column_to, columns_from)" by (cases item)
  show ?thesis
  proof (cases "columns_from = []")
    case True
    then show ?thesis unfolding item score_column_def prod.case by (simp only: simp_thms if_True)
  next
    case False
    with assms(1) item have act: "column_to \<in> set (active_columns self)"
      by (force simp: active_columns_def)
    with assms(2) have "column_to \<in> set (df_columns (df_to self))" by auto
    with False act show ?thesis
      unfolding item by (intro score_column_empty_column) simp_all
  qed
qed

lemma fold_keep: "fold (\<lambda>x s. s) xs s = s"
  by (induction xs) auto

lemma compute_score_empty_reference:
  assumes "len_df (df_from self) = 0"
    and "set (column_groups self) \<subseteq> set (df_columns (df_from self)) \<inter> set (df_columns (df_to self))"
    and "set (active_columns self) \<subseteq> set (df_columns (df_to self))"
  shows "compute_score scorer self (\<lambda>c. if c \<in> set (active_columns self) then Some [] else None)
           index_to u = Inr []"
proof -
  let ?ch = "\<lambda>c. if c \<in> set (active_columns self) then Some [] else None"
  let ?row = "df_rows (df_to self) ! index_to"
  have "fold_err (score_column scorer self ?ch ?row [] u) [] (columns_to_match self)
        = Inr (fold (\<lambda>x s. s) (columns_to_match self) [])"
    by (rule fold_err_total) (rule score_column_empty_reference [OF _ assms(3)])
  then have scored: "fold_err (score_column scorer self ?ch ?row [] u) [] (columns_to_match self) = Inr []"
    by (simp only: fold_keep)
  show ?thesis
    unfolding compute_score_def Let_def
    by (simp only: subset_index_empty_reference [OF assms(1,2)] sum.case scored)
qed

lemma adjusted_uniqueness_ok:
  assumes "set cols \<subseteq> set (df_columns df)" and "cols \<noteq> [] \<longrightarrow> 0 < len_df df"
  shows "\<exists>g. adjusted_uniqueness df cols = Inr (map (\<lambda>c. (c, g c)) cols)"
proof -
  have "\<exists>u. adjusted_uniqueness df cols = Inr u"
    using assms unfolding adjusted_uniqueness_def Let_def by auto
  then obtain u where u: "adjusted_uniqueness df cols = Inr u" ..
  from adjusted_uniqueness_shape [OF u] u show ?thesis by auto
qed

lemma optimal_threshold_ok:
  "optimal_threshold self (map (\<lambda>c. (c, g c)) cols) cols =
     Inr (sum_list (map (\<lambda>c. threshold_of self c * g c) cols))"
proof -
  have "map_err (\<lambda>column. case series_at (map (\<lambda>c. (c, g c)) cols) column of
                 Inl e \<Rightarrow> Inl e | Inr w \<Rightarrow> Inr (threshold_of self column * w)) cols
        = Inr (map (\<lambda>c. threshold_of self c * g c) cols)"
    by (rule map_err_total) (simp add: series_at_keyed)
  then show ?thesis by (simp add: optimal_threshold_def)
qed

lemma top_matches_nothing: "top_matches self [] opt = []"
  by (simp add: top_matches_def filter_highest_def)

text \<open>With an empty reference table the loop writes the same row for every target row.\<close>

lemma match_rows_empty_reference:
  assumes "len_df (df_from self) = 0"
    and "active_columns self \<noteq> [] \<longrightarrow> 0 < len_df (df_to self)"
    and "set (active_columns self) \<subseteq> set (df_columns (df_to self))"
    and "\<forall>(column_to, columns_from) \<in> set (columns_to_match self).
           set columns_from \<subseteq> set (df_columns (df_from self))"
    and "set (column_groups self) \<subseteq> set (df_columns (df_from self)) \<inter> set (df_columns (df_to self))"
  shows "match_rows scorer self =
         Inr (map (\<lambda>index_to. (\<lparr>copied = [], match_status = UNMATCHED, row_index = PyStr '''',
                                   match_score = None\<rparr>, []))
                [0..<len_df (df_to self)])"
proof -
  let ?ch = "\<lambda>c. if c \<in> set (active_columns self) then Some [] else None"
  from adjusted_uniqueness_ok [OF assms(3,2)] obtain g where
    u: "adjusted_uniqueness (df_to self) (active_columns self) =
          Inr (map (\<lambda>c. (c, g c)) (active_columns self))" ..
  let ?u = "map (\<lambda>c. (c, g c)) (active_columns self)"
  let ?opt = "sum_list (map (\<lambda>c. threshold_of self c * g c) (active_columns self))"
  have opt: "optimal_threshold self ?u (active_columns self) = Inr ?opt"
    by (rule optimal_threshold_ok)
  have ch: "choices self = Inr ?ch"
    by (rule choices_empty_reference [OF assms(1,4)])
  have row: "match_row scorer self ?ch ?u ?opt index_to =
        Inr (\<lparr>copied = [], match_status = UNMATCHED, row_index = PyStr '''', match_score = None\<rparr>, [])"
    for index_to
    unfolding match_row_def
    by (simp only: compute_score_empty_reference [OF assms(1,5,3)] sum.case top_matches_nothing
          record_row_empty)
  have "map_err (match_row scorer self ?ch ?u ?opt) [0..<len_df (df_to self)] =
        Inr (map (\<lambda>index_to. (\<lparr>copied = [], match_status = UNMATCHED, row_index = PyStr '''',
                                   match_score = None\<rparr>, []))
                [0..<len_df (df_to self)])"
    by (rule map_err_total) (rule row)
  then show ?thesis
    unfolding match_rows_def Let_def by (simp only: u opt ch sum.case)
qed

lemma mark_duplicates_none: "mark_duplicates [] rows = rows"
  by (rule nth_equalityI) (simp_all add: mark_duplicates_length mark_duplicates_nth)

lemma dupes_all_blank:
  assumes "\<forall>c \<in> set col. c = PyStr ''''"
  shows "fst (get_column_dupes col) = []"
proof -
  have "set (fst (get_column_dupes col)) = {}"
    using assms by (auto simp: dupes_index_set)
  then show ?thesis by simp
qed

text \<open>
  C9. With a reference table that has no row, a target table with at least one row (or no
  actively mapped column) and a configuration whose columns exist (the actively mapped
  columns in the target table, the linked columns in the reference table, the group
  columns in both), \<open>match\<close> returns without raising: the score map of every row is empty,
  so is its \<open>top_matches\<close>, every target row is UNMATCHED, and the summary reports 0 as
  total match score and average and the sentinel -1 as highest and lowest match score.
\<close>

theorem empty_reference_all_unmatched:
  assumes "len_df (df_from self) = 0"
    and "active_columns self \<noteq> [] \<longrightarrow> 0 < len_df (df_to self)"
    and "set (active_columns self) \<subseteq> set (df_columns (df_to self))"
    and "\<forall>(column_to, columns_from) \<in> set (columns_to_match self).
           set columns_from \<subseteq> set (df_columns (df_from self))"
    and "set (column_groups self) \<subseteq> set (df_columns (df_from self)) \<inter> set (df_columns (df_to self))"
  shows "\<exists>df_matched m_info.
           match scorer self = Inr (df_matched, m_info)
         \<and> length df_matched = len_df (df_to self)
         \<and> (\<forall>r \<in> set df_matched.
               match_status r = UNMATCHED \<and> row_index r = PyStr '''' \<and> match_score r = None)
         \<and> total_match_score m_info = IntLit 0
         \<and> average_match_score m_info = IntLit 0
         \<and> highest_match_score m_info = IntLit (- 1)
         \<and> lowest_match_score m_info = IntLit (- 1)
         \<and> m_stat m_info UNMATCHED = len_df (df_to self)"
proof -
  let ?blank = "\<lparr>copied = [], match_status = UNMATCHED, row_index = PyStr '''', match_score = None\<rparr>"
  let ?n = "len_df (df_to self)"
  let ?looped = "map (\<lambda>index_to :: nat. (?blank, [] :: rat list)) [0..<?n]"
  let ?rows = "map (\<lambda>index_to :: nat. ?blank) [0..<?n]"
  have looped: "match_rows scorer self = Inr ?looped"
    by (rule match_rows_empty_reference [OF assms])
  have rows: "map fst ?looped = ?rows" by (simp add: comp_def)
  have scores: "concat (map snd ?looped) = []" by (simp add: comp_def)
  have "fst (get_column_dupes (map row_index ?rows)) = []"
    by (rule dupes_all_blank) auto
  then obtain dupes where dupes: "get_column_dupes (map row_index ?rows) = ([], dupes)"
    by (cases "get_column_dupes (map row_index ?rows)") auto
  have m: "match scorer self = Inr (?rows, summary ?n ?rows [])"
    unfolding match_def Let_def
    by (simp only: looped sum.case rows scores dupes prod.case mark_duplicates_none)
  have cnt: "count_list (map match_status ?rows) MATCHED = 0"
    by (auto simp: count_list_0_iff)
  have cnt_u: "count_list (map match_status ?rows) UNMATCHED = ?n"
  proof -
    have "map match_status ?rows = replicate ?n UNMATCHED"
      by (simp add: comp_def map_replicate_const)
    moreover have "count_list (replicate k UNMATCHED) UNMATCHED = k" for k
      by (induction k) auto
    ultimately show ?thesis by simp
  qed
  show ?thesis
    using m cnt cnt_u
    by (intro exI [of _ ?rows] exI [of _ "summary ?n ?rows []"]) (simp add: summary_def)
qed

theorem empty_reference_all_unmatched_witness:
  "len_df (df_from ex_no_reference) = 0
   \<and> active_columns ex_no_reference \<noteq> [] \<and> 0 < len_df (df_to ex_no_reference)
   \<and> set (active_columns ex_no_reference) \<subseteq> set (df_columns (df_to ex_no_reference))
   \<and> list_all (\<lambda>(column_to, columns_from).
                  set columns_from \<subseteq> set (df_columns (df_from ex_no_reference)))
         (columns_to_match ex_no_reference)
   \<and> set (column_groups ex_no_reference)
         \<subseteq> set (df_columns (df_from ex_no_reference)) \<inter> set (df_columns (df_to ex_no_reference))
   \<and> (\<exists>df_matched m_info.
          match ex_scorer ex_no_reference = Inr (df_matched, m_info)
        \<and> length df_matched = 3
        \<and> (\<forall>r \<in> set df_matched. match_status r = UNMATCHED)
        \<and> total_match_score m_info = IntLit 0
        \<and> highest_match_score m_info = IntLit (- 1)
        \<and> lowest_match_score m_info = IntLit (- 1))"
proof -
  have h1: "len_df (df_from ex_no_reference) = 0" by code_simp
  have h2: "active_columns ex_no_reference \<noteq> [] \<longrightarrow> 0 < len_df (df_to ex_no_reference)"
    by code_simp
  have h3: "set (active_columns ex_no_reference) \<subseteq> set (df_columns (df_to ex_no_reference))"
    by code_simp
  have h4: "\<forall>(column_to, columns_from) \<in> set (columns_to_match ex_no_reference).
          set columns_from \<subseteq> set (df_columns (df_from ex_no_reference))"
    by code_simp
  have h5: "set (column_groups ex_no_reference)
         \<subseteq> set (df_columns (df_from ex_no_reference)) \<inter> set (df_columns (df_to ex_no_reference))"
    by code_simp
  have n: "len_df (df_to ex_no_reference) = 3" by code_simp
  have g2: "active_columns ex_no_reference \<noteq> []" "0 < len_df (df_to ex_no_reference)"
    by code_simp+
  have g4: "list_all (\<lambda>(column_to, columns_from).
                  set columns_from \<subseteq> set (df_columns (df_from ex_no_reference)))
         (columns_to_match ex_no_reference)"
    by code_simp
  from empty_reference_all_unmatched [OF h1 h2 h3 h4 h5, of ex_scorer]
  have "\<exists>df_matched m_info.
          match ex_scorer ex_no_reference = Inr (df_matched, m_info)
        \<and> length df_matched = 3
        \<and> (\<forall>r \<in> set df_matched. match_status r = UNMATCHED)
        \<and> total_match_score m_info = IntLit 0
        \<and> highest_match_score m_info = IntLit (- 1)
        \<and> lowest_match_score m_info = IntLit (- 1)"
    unfolding n by blast
  then show ?thesis by (intro conjI h1 g2 h3 g4 h5)
qed

subsection \<open>Empty input tables\<close>

lemma adjusted_uniqueness_empty_target:
  assumes "len_df (df_to self) = 0" and "active_columns self \<noteq> []"
    and "set (active_columns self) \<subseteq> set (df_columns (df_to self))"
  shows "adjusted_uniqueness (df_to self) (active_columns self) = Inl ZeroDivisionError"
  using assms unfolding adjusted_uniqueness_def Let_def by simp

lemma ex_no_reference_rows:
  "match_rows ex_scorer ex_no_reference = Inr (map (\<lambda>r. (r, [])) ex_unmatched)"
  by code_simp

lemma ex_no_reference_match:
  "match ex_scorer ex_no_reference = Inr (ex_unmatched, summary 3 ex_unmatched [])"
proof -
  have a: "get_column_dupes (map row_index (map fst (map (\<lambda>r. (r, [] :: rat list)) ex_unmatched))) = ([], [])"
    by code_simp
  have b: "mark_duplicates [] (map fst (map (\<lambda>r. (r, [] :: rat list)) ex_unmatched)) = ex_unmatched"
    by code_simp
  have c: "concat (map snd (map (\<lambda>r. (r, [] :: rat list)) ex_unmatched)) = []" by code_simp
  have d: "len_df (df_to ex_no_reference) = 3" by code_simp
  show ?thesis
    unfolding match_def ex_no_reference_rows Let_def
    by (simp only: sum.case a b c d prod.case)
qed

text \<open>
  C8, as the specification words it, fails. The code has no emptiness check and no
  \<open>EmptyInputError\<close>: on the example with a target table without rows \<open>match\<close> ends in
  the \<open>ZeroDivisionError\<close> of \<open>adjusted_uniqueness\<close>, and on the example with a reference
  table without rows it raises nothing and returns a table.
\<close>

theorem empty_input_is_not_a_typed_error:
  "len_df (df_to ex_no_target) = 0
   \<and> match ex_scorer ex_no_target = Inl ZeroDivisionError
   \<and> len_df (df_from ex_no_reference) = 0
   \<and> match ex_scorer ex_no_reference = Inr (ex_unmatched, summary 3 ex_unmatched [])"
proof -
  have a: "len_df (df_to ex_no_target) = 0" by code_simp
  have b: "match_rows ex_scorer ex_no_target = Inl ZeroDivisionError" by code_simp
  have c: "match ex_scorer ex_no_target = Inl ZeroDivisionError"
    unfolding match_def b by simp
  have d: "len_df (df_from ex_no_reference) = 0" by code_simp
  show ?thesis by (intro conjI a c d ex_no_reference_match)
qed

text \<open>
  C8, as the code has it. With a target table without rows and at least one actively
  mapped column (each a column of the target table), the first division of
  \<open>adjusted_uniqueness\<close> raises \<open>ZeroDivisionError\<close>; this is the first statement of
  \<open>match\<close>, so nothing of the result table exists yet and the loop is never entered. With
  a reference table without rows, a target table with rows and a configuration whose
  columns exist, \<open>match\<close> raises nothing and returns one row per target row.
\<close>

theorem empty_tables_as_coded:
  "(len_df (df_to self) = 0 \<and> active_columns self \<noteq> []
      \<and> set (active_columns self) \<subseteq> set (df_columns (df_to self))
    \<longrightarrow> adjusted_uniqueness (df_to self) (active_columns self) = Inl ZeroDivisionError
      \<and> match_rows scorer self = Inl ZeroDivisionError
      \<and> match scorer self = Inl ZeroDivisionError)
   \<and> (len_df (df_from self) = 0 \<and> 0 < len_df (df_to self)
      \<and> set (active_columns self) \<subseteq> set (df_columns (df_to self))
      \<and> (\<forall>(column_to, columns_from) \<in> set (columns_to_match self).
            set columns_from \<subseteq> set (df_columns (df_from self)))
      \<and> set (column_groups self) \<subseteq> set (df_columns (df_from self)) \<inter> set (df_columns (df_to self))
    \<longrightarrow> (\<exists>df_matched m_info. match scorer self = Inr (df_matched, m_info)
            \<and> length df_matched = len_df (df_to self)))"
proof (intro conjI impI)
  assume h: "len_df (df_to self) = 0 \<and> active_columns self \<noteq> []
      \<and> set (active_columns self) \<subseteq> set (df_columns (df_to self))"
  then show u: "adjusted_uniqueness (df_to self) (active_columns self) = Inl ZeroDivisionError"
    by (intro adjusted_uniqueness_empty_target) simp_all
  then show r: "match_rows scorer self = Inl ZeroDivisionError"
    unfolding match_rows_def Let_def by simp
  then show "match scorer self = Inl ZeroDivisionError"
    unfolding match_def by simp
next
  assume h: "len_df (df_from self) = 0 \<and> 0 < len_df (df_to self)
      \<and> set (active_columns self) \<subseteq> set (df_columns (df_to self))
      \<and> (\<forall>(column_to, columns_from) \<in> set (columns_to_match self).
            set columns_from \<subseteq> set (df_columns (df_from self)))
      \<and> set (column_groups self) \<subseteq> set (df_columns (df_from self)) \<inter> set (df_columns (df_to self))"
  then have "match_rows scorer self =
         Inr (map (\<lambda>index_to. (\<lparr>copied = [], match_status = UNMATCHED, row_index = PyStr '''',
                                   match_score = None\<rparr>, []))
                [0..<len_df (df_to self)])"
    by (intro match_rows_empty_reference) simp_all
  then show "\<exists>df_matched m_info. match scorer self = Inr (df_matched, m_info)
            \<and> length df_matched = len_df (df_to self)"
    unfolding match_def Let_def
    by (simp add: mark_duplicates_length split: prod.splits)
qed

theorem empty_tables_as_coded_witness:
  "len_df (df_to ex_no_target) = 0 \<and> active_columns ex_no_target \<noteq> []
   \<and> set (active_columns ex_no_target) \<subseteq> set (df_columns (df_to ex_no_target))
   \<and> match ex_scorer ex_no_target = Inl ZeroDivisionError
   \<and> len_df (df_from ex_no_reference) = 0 \<and> 0 < len_df (df_to ex_no_reference)
   \<and> set (active_columns ex_no_reference) \<subseteq> set (df_columns (df_to ex_no_reference))
   \<and> list_all (\<lambda>(column_to, columns_from).
                  set columns_from \<subseteq> set (df_columns (df_from ex_no_reference)))
         (columns_to_match ex_no_reference)
   \<and> set (column_groups ex_no_reference)
         \<subseteq> set (df_columns (df_from ex_no_reference)) \<inter> set (df_columns (df_to ex_no_reference))
   \<and> (\<exists>df_matched m_info. match ex_scorer ex_no_reference = Inr (df_matched, m_info)
         \<and> length df_matched = len_df (df_to ex_no_reference))"
proof -
  have a: "len_df (df_to ex_no_target) = 0" "active_columns ex_no_target \<noteq> []"
    "set (active_columns ex_no_target) \<subseteq> set (df_columns (df_to ex_no_target))"
    by code_simp+
  have b: "len_df (df_from ex_no_reference) = 0" "0 < len_df (df_to ex_no_reference)"
    "set (active_columns ex_no_reference) \<subseteq> set (df_columns (df_to ex_no_reference))"
    "\<forall>(column_to, columns_from) \<in> set (columns_to_match ex_no_reference).
          set columns_from \<subseteq> set (df_columns (df_from ex_no_reference))"
    "set (column_groups ex_no_reference)
         \<subseteq> set (df_columns (df_from ex_no_reference)) \<inter> set (df_columns (df_to ex_no_reference))"
    by code_simp+
  have b4: "list_all (\<lambda>(column_to, columns_from).
                  set columns_from \<subseteq> set (df_columns (df_from ex_no_reference)))
         (columns_to_match ex_no_reference)"
    by code_simp
  from empty_tables_as_coded [of ex_no_target ex_scorer] a
  have c: "match ex_scorer ex_no_target = Inl ZeroDivisionError" by blast
  from empty_tables_as_coded [of ex_no_reference ex_scorer] b
  have d: "\<exists>df_matched m_info. match ex_scorer ex_no_reference = Inr (df_matched, m_info)
         \<and> length df_matched = len_df (df_to ex_no_reference)" by blast
  show ?thesis by (intro conjI a b(1,2,3,5) b4 c d)
qed

subsection \<open>Ties and AMBIGUOUS\<close>

text \<open>
  C3, as the specification words it, fails. Two candidates score 80.001 and 80.002: both
  round to 80.0 and pass the required threshold of 75, but only the second one holds the
  maximum, so the row is a single match (MATCHED, reference row 1 reported as 3) and not
  AMBIGUOUS.
\<close>

theorem near_tie_is_not_ambiguous:
  "round2 (80001 / 1000) = round2 (80002 / 1000)
   \<and> round2 (required_threshold ex_matcher) \<le> round2 (80001 / 1000)
   \<and> record_row ex_matcher (top_matches ex_matcher [(0, 80001 / 1000), (1, 80002 / 1000)] 75) =
       Inr (\<lparr>copied = [(''city'', ''LA'')], match_status = MATCHED, row_index = PyInt 3,
             match_score = Some (80002 / 1000)\<rparr>, [80002 / 1000])"
  by code_simp

lemma top_matches_length:
  "length (top_matches self ms opt) =
     (if round2 (required_threshold self) \<le> round2 (Max (set (map snd ms)))
      then length (filter (\<lambda>(k, v). v = Max (set (map snd ms))) ms) else 0)"
proof -
  let ?M = "Max (set (map snd ms))"
  let ?fh = "filter (\<lambda>(k, v). v = ?M) ms"
  have all: "\<forall>(k, v) \<in> set ?fh. v = ?M" by auto
  have eq: "filter (\<lambda>(k, v). round2 (required_threshold self) \<le> round2 v) ?fh =
        (if round2 (required_threshold self) \<le> round2 ?M then ?fh else [])"
  proof (cases "round2 (required_threshold self) \<le> round2 ?M")
    case True
    then have "filter (\<lambda>(k, v). round2 (required_threshold self) \<le> round2 v) ?fh = ?fh"
      by (intro filter_True) auto
    with True show ?thesis by simp
  next
    case False
    then have "filter (\<lambda>(k, v). round2 (required_threshold self) \<le> round2 v) ?fh = []"
      by (auto simp: filter_empty_conv)
    with False show ?thesis by simp
  qed
  have "length (top_matches self ms opt) =
        length (filter (\<lambda>(k, v). round2 (required_threshold self) \<le> round2 v) ?fh)"
    unfolding top_matches_def filter_highest_def by (simp only: length_map)
  also have "\<dots> = (if round2 (required_threshold self) \<le> round2 ?M then length ?fh else 0)"
    unfolding eq by simp
  finally show ?thesis .
qed

lemma record_row_ambiguous_iff:
  assumes "record_row self (top_matches self ms opt) = Inr (r, sc)"
  shows "match_status r = AMBIGUOUS \<longleftrightarrow> 1 < length (top_matches self ms opt)"
proof (cases "top_matches self ms opt" rule: length_cases)
  case 1
  with assms show ?thesis by (auto simp: record_row_empty)
next
  case (2 x)
  obtain k st v where x: "x = (k, st, v)" by (cases x)
  with 2 have "(k, st, v) \<in> set (top_matches self ms opt)" by simp
  from top_matches_entry(1) [OF this] have "st \<noteq> AMBIGUOUS" by (simp split: if_splits)
  with assms 2 x record_row_single(1) [of self k st v r sc] show ?thesis by simp
next
  case 3
  with assms record_row_several [OF 3, of self] show ?thesis by auto
qed

text \<open>
  C3, as the code has it. \<open>filter_highest\<close> compares with \<open>==\<close>: two candidates are
  collected together exactly when their scores are equal and are the maximum of the score
  map. A row is AMBIGUOUS exactly when at least two candidates hold exactly that maximum
  and the maximum passes the required threshold, both rounded to two decimals; rounding
  enters the threshold test only.
\<close>

theorem ambiguous_iff_exact_tie:
  assumes "record_row self (top_matches self match_scores optimal) = Inr (r, sc)"
  shows "(match_status r = AMBIGUOUS \<longleftrightarrow>
            1 < length (filter (\<lambda>(k, v). v = Max (set (map snd match_scores))) match_scores)
          \<and> round2 (required_threshold self) \<le> round2 (Max (set (map snd match_scores))))
       \<and> (\<forall>(k1, v1) \<in> set match_scores. \<forall>(k2, v2) \<in> set match_scores.
             (k1, v1) \<in> set (filter_highest match_scores)
           \<and> (k2, v2) \<in> set (filter_highest match_scores)
           \<longleftrightarrow> v1 = v2 \<and> v1 = Max (set (map snd match_scores)))"
proof
  show "match_status r = AMBIGUOUS \<longleftrightarrow>
            1 < length (filter (\<lambda>(k, v). v = Max (set (map snd match_scores))) match_scores)
          \<and> round2 (required_threshold self) \<le> round2 (Max (set (map snd match_scores)))"
    unfolding record_row_ambiguous_iff [OF assms] top_matches_length by auto
next
  show "\<forall>(k1, v1) \<in> set match_scores. \<forall>(k2, v2) \<in> set match_scores.
             (k1, v1) \<in> set (filter_highest match_scores)
           \<and> (k2, v2) \<in> set (filter_highest match_scores)
           \<longleftrightarrow> v1 = v2 \<and> v1 = Max (set (map snd match_scores))"
    by (auto simp: filter_highest_def)
qed

theorem ambiguous_iff_exact_tie_witness:
  "record_row ex_matcher (top_matches ex_matcher [(0, 80), (1, 80)] 75) =
     Inr (\<lparr>copied = [], match_status = AMBIGUOUS, row_index = PyStr ''2, 3'', match_score = None\<rparr>, [])
   \<and> 1 < length (filter (\<lambda>(k, v). v = Max (set (map snd [(0 :: nat, 80 :: rat), (1, 80)])))
                  [(0, 80), (1, 80)])
   \<and> round2 (required_threshold ex_matcher) \<le> round2 (Max (set (map snd [(0 :: nat, 80 :: rat), (1, 80)])))"
proof -
  have a: "record_row ex_matcher (top_matches ex_matcher [(0, 80), (1, 80)] 75) =
     Inr (\<lparr>copied = [], match_status = AMBIGUOUS, row_index = PyStr ''2, 3'', match_score = None\<rparr>, [])"
    by code_simp
  from ambiguous_iff_exact_tie [OF a] a show ?thesis by simp
qed

end
